theory Spec2Isabelle
  imports Main "HOL-Library.Word" "HOL-Library.Char_ord" "HOL-Library.List_Lexorder"
begin

unbundle bit_operations_syntax

section \<open>Machine types and C strings\<close>

type_synonym byte = "8 word"

type_synonym size_t = "64 word"

type_synonym zip_uint64_t = "64 word"

text \<open>
  A \<open>std::string\<close> is a list of characters and may hold a NUL; a \<open>const char*\<close> ends at
  its first NUL. \<open>c_str\<close> is the view of a \<open>std::string\<close> as a C string, and also the
  conversion of a C string back into a \<open>std::string\<close>.
\<close>

definition c_str :: "string \<Rightarrow> string" where
  "c_str s = takeWhile (\<lambda>c. c \<noteq> CHR 0x00) s"

text \<open>\<open>strncmp(a, b, n) == 0\<close> on two C strings: the first \<open>n\<close> characters of the
  NUL-terminated strings agree.\<close>

definition strncmp_eq :: "string \<Rightarrow> string \<Rightarrow> nat \<Rightarrow> bool" where
  "strncmp_eq a b n = (take n (c_str a @ [CHR 0x00]) = take n (c_str b @ [CHR 0x00]))"

text \<open>\<open>s.find(c, pos)\<close> and \<open>s.rfind(c)\<close>: \<open>None\<close> is \<open>npos\<close>.\<close>

definition str_find :: "string \<Rightarrow> char \<Rightarrow> nat \<Rightarrow> nat option" where
  "str_find s c pos = List.find (\<lambda>i. s ! i = c) [pos..<length s]"

definition str_rfind :: "string \<Rightarrow> char \<Rightarrow> nat option" where
  "str_rfind s c = List.find (\<lambda>i. s ! i = c) (rev [0..<length s])"

text \<open>\<open>s.find("..") != npos\<close>.\<close>

fun has_dotdot :: "string \<Rightarrow> bool" where
  "has_dotdot (a # b # rest) = ((a = CHR ''.'' \<and> b = CHR ''.'') \<or> has_dotdot (b # rest))"
| "has_dotdot _ = False"

text \<open>\<open>std::replace(s.begin(), s.end(), a, b)\<close>.\<close>

definition str_replace :: "char \<Rightarrow> char \<Rightarrow> string \<Rightarrow> string" where
  "str_replace a b s = map (\<lambda>c. if c = a then b else c) s"

text \<open>\<open>s.substr(pos)\<close> throws \<open>std::out_of_range\<close> when \<open>pos > s.size()\<close>.\<close>

datatype enum_error = OutOfRange

definition substr_from :: "string \<Rightarrow> nat \<Rightarrow> enum_error + string" where
  "substr_from s pos = (if pos > length s then Inl OutOfRange else Inr (drop pos s))"

abbreviation BACKSLASH :: char where "BACKSLASH \<equiv> CHR 0x5C"

abbreviation SLASH :: char where "SLASH \<equiv> CHR ''/''"

section \<open>The archive backend\<close>

text \<open>
  The provider drives an archive library (libzip) through its C interface. The library is
  not part of the repository; what the provider observes of it is modelled by a state: the
  entries of the open archive in index order, each with the answers the library gives for
  it, and the conditions under which the library refuses a mutation.
\<close>

record zip_stat =
  st_valid :: "zip_uint64_t"
  st_size :: "zip_uint64_t"
  st_comp_method :: "16 word"

definition ZIP_STAT_SIZE :: "zip_uint64_t" where "ZIP_STAT_SIZE = 0x0004"

definition ZIP_STAT_COMP_SIZE :: "zip_uint64_t" where "ZIP_STAT_COMP_SIZE = 0x0008"

definition ZIP_STAT_MTIME :: "zip_uint64_t" where "ZIP_STAT_MTIME = 0x0010"

definition ZIP_STAT_COMP_METHOD :: "zip_uint64_t" where "ZIP_STAT_COMP_METHOD = 0x0040"

definition ZIP_STAT_ENCRYPTION_METHOD :: "zip_uint64_t" where "ZIP_STAT_ENCRYPTION_METHOD = 0x0080"

definition ZIP_STAT_FLAGS :: "zip_uint64_t" where "ZIP_STAT_FLAGS = 0x0100"

definition ZIP_CM_STORE :: "16 word" where "ZIP_CM_STORE = 0"

definition ZIP_CM_DEFLATE :: "16 word" where "ZIP_CM_DEFLATE = 8"

definition ZIP_OPSYS_DOS :: "8 word" where "ZIP_OPSYS_DOS = 0x00"

definition ZIP_OPSYS_UNIX :: "8 word" where "ZIP_OPSYS_UNIX = 0x03"

definition ZIP_INT64_MAX :: "zip_uint64_t" where "ZIP_INT64_MAX = 0x7FFFFFFFFFFFFFFF"

text \<open>
  One entry: \<open>e_name\<close> is what \<open>zip_get_name\<close> returns (\<open>None\<close> is \<open>NULL\<close>),
  \<open>e_stat\<close> what \<open>zip_stat_index\<close> fills in (\<open>None\<close>: it fails), \<open>e_opsys\<close> the
  platform of origin given by \<open>zip_file_get_external_attributes\<close> (\<open>None\<close>: it fails),
  \<open>e_data\<close> the uncompressed content that \<open>zip_fopen_index\<close> gives access to
  (\<open>None\<close>: the entry cannot be opened), \<open>e_corrupt\<close> an integrity failure that the
  library reports as a read error once the content is exhausted, and \<open>e_dostime\<close> the
  time stamp set by \<open>zip_file_set_dostime\<close>.
\<close>

record zip_entry =
  e_name :: "string option"
  e_stat :: "zip_stat option"
  e_opsys :: "8 word option"
  e_data :: "byte list option"
  e_corrupt :: bool
  e_dostime :: "(16 word \<times> 16 word) option"

text \<open>
  The archive: \<open>za_rdonly\<close> is the archive flag \<open>ZIP_AFL_RDONLY\<close>; \<open>za_nomem\<close> says
  that the library cannot allocate a new source; \<open>za_name_ok\<close> is the library's own
  validation of a name handed to \<open>zip_file_add\<close> (its encoding check).
\<close>

record zip_t =
  za_entries :: "zip_entry list"
  za_rdonly :: bool
  za_nomem :: bool
  za_name_ok :: "string \<Rightarrow> bool"

definition zip_get_num_entries :: "zip_t \<Rightarrow> int" where
  "zip_get_num_entries za = int (length (za_entries za))"

definition zip_get_name :: "zip_t \<Rightarrow> nat \<Rightarrow> string option" where
  "zip_get_name za idx =
     (if idx < length (za_entries za) then map_option c_str (e_name (za_entries za ! idx)) else None)"

definition zip_stat_index :: "zip_t \<Rightarrow> nat \<Rightarrow> zip_stat option" where
  "zip_stat_index za idx =
     (if idx < length (za_entries za) then e_stat (za_entries za ! idx) else None)"

definition zip_file_get_external_attributes :: "zip_t \<Rightarrow> nat \<Rightarrow> 8 word option" where
  "zip_file_get_external_attributes za idx =
     (if idx < length (za_entries za) then e_opsys (za_entries za ! idx) else None)"

text \<open>\<open>zip_name_locate\<close> without the case and directory flags: the index of the entry
  of that exact name, \<open>-1\<close> when there is none.\<close>

fun locate_from :: "zip_entry list \<Rightarrow> string \<Rightarrow> nat \<Rightarrow> int" where
  "locate_from [] fname i = -1"
| "locate_from (e # es) fname i =
     (if map_option c_str (e_name e) = Some fname then int i else locate_from es fname (Suc i))"

definition zip_name_locate :: "zip_t \<Rightarrow> string \<Rightarrow> int" where
  "zip_name_locate za fname = locate_from (za_entries za) fname 0"

text \<open>An open file inside the archive (\<open>zip_file_t\<close>): the bytes not yet read, the
  integrity failure waiting at the end of the data, and the sticky error state.\<close>

record zip_file =
  zf_data :: "byte list"
  zf_corrupt :: bool
  zf_error :: bool

definition zip_fopen_index :: "zip_t \<Rightarrow> nat \<Rightarrow> zip_file option" where
  "zip_fopen_index za idx =
     (if idx < length (za_entries za) then
        (case e_data (za_entries za ! idx) of
           None \<Rightarrow> None
         | Some d \<Rightarrow> Some \<lparr>zf_data = d, zf_corrupt = e_corrupt (za_entries za ! idx), zf_error = False\<rparr>)
      else None)"

text \<open>\<open>zip_fread(zf, buf, toread)\<close>: the return value, the bytes stored into \<open>buf\<close>,
  and the file afterwards.\<close>

definition zip_fread :: "zip_file \<Rightarrow> zip_uint64_t \<Rightarrow> int \<times> byte list \<times> zip_file" where
  "zip_fread zf toread =
     (if zf_error zf then (-1, [], zf)
      else if toread > ZIP_INT64_MAX then (-1, [], zf\<lparr>zf_error := True\<rparr>)
      else if toread = 0 then (0, [], zf)
      else if zf_data zf = [] then
        (if zf_corrupt zf then (-1, [], zf\<lparr>zf_error := True\<rparr>) else (0, [], zf))
      else (int (length (take (unat toread) (zf_data zf))),
            take (unat toread) (zf_data zf),
            zf\<lparr>zf_data := drop (unat toread) (zf_data zf)\<rparr>))"

text \<open>\<open>zip_source_buffer(za, data, len, 1)\<close>: a source over the first \<open>len\<close> bytes.\<close>

definition zip_source_buffer :: "zip_t \<Rightarrow> byte list \<Rightarrow> zip_uint64_t \<Rightarrow> byte list option" where
  "zip_source_buffer za data len = (if za_nomem za then None else Some (take (unat len) data))"

text \<open>The stat of an entry whose data is a buffer source: stored, of the buffer's size.\<close>

definition buffer_stat :: "byte list \<Rightarrow> zip_stat" where
  "buffer_stat src =
     \<lparr>st_valid = ZIP_STAT_MTIME OR ZIP_STAT_SIZE OR ZIP_STAT_COMP_SIZE OR ZIP_STAT_COMP_METHOD
                  OR ZIP_STAT_ENCRYPTION_METHOD OR ZIP_STAT_FLAGS,
      st_size = of_nat (length src),
      st_comp_method = ZIP_CM_STORE\<rparr>"

text \<open>
  \<open>zip_file_add(za, name, source, ZIP_FL_OVERWRITE | ZIP_FL_ENC_UTF_8)\<close>: refused on a
  read-only archive and for a name the library rejects; otherwise the entry of that name
  gets the source as its data, and a new entry is appended when there is none. The result
  is the index, \<open>-1\<close> on failure.
\<close>

definition zip_file_add :: "zip_t \<Rightarrow> string \<Rightarrow> byte list \<Rightarrow> int \<times> zip_t" where
  "zip_file_add za name src =
     (if za_rdonly za \<or> \<not> za_name_ok za name then (-1, za)
      else
        (let i = zip_name_locate za name in
         if i < 0 then
           (int (length (za_entries za)),
            za\<lparr>za_entries := za_entries za @
                 [\<lparr>e_name = Some name, e_stat = Some (buffer_stat src),
                   e_opsys = Some ZIP_OPSYS_UNIX, e_data = Some src, e_corrupt = False,
                   e_dostime = None\<rparr>]\<rparr>)
         else
           (i, za\<lparr>za_entries := (za_entries za)[nat i :=
                 (za_entries za ! nat i)\<lparr>e_stat := Some (buffer_stat src), e_data := Some src,
                                          e_corrupt := False\<rparr>]\<rparr>)))"

definition zip_file_set_dostime :: "zip_t \<Rightarrow> nat \<Rightarrow> 16 word \<Rightarrow> 16 word \<Rightarrow> zip_t" where
  "zip_file_set_dostime za idx dtime ddate =
     (if idx < length (za_entries za) \<and> \<not> za_rdonly za then
        za\<lparr>za_entries := (za_entries za)[idx := (za_entries za ! idx)\<lparr>e_dostime := Some (dtime, ddate)\<rparr>]\<rparr>
      else za)"

section \<open>The binary stream adapter\<close>

datatype OpenMode = READ | WRITE

text \<open>
  \<open>WzMapBinaryZipIOStream\<close>. The stream's share of the archive (\<open>m_zipArchive\<close>) is
  the archive state handed to the operations that touch it. \<open>m_writeBuffer\<close> holds the
  bytes written so far (\<open>None\<close> is \<open>nullptr\<close>).
\<close>

record WzMapBinaryZipIOStream =
  m_mode :: "OpenMode option"
  m_pReadHandle :: "zip_file option"
  m_extraByteRead :: "byte option"
  m_filename :: string
  m_writeBuffer :: "byte list option"
  m_writeBufferLen :: size_t
  m_writeBufferCapacity :: size_t
  m_fixedLastMod :: bool

definition new_stream :: "OpenMode \<Rightarrow> WzMapBinaryZipIOStream" where
  "new_stream mode =
     \<lparr>m_mode = Some mode, m_pReadHandle = None, m_extraByteRead = None, m_filename = [],
      m_writeBuffer = None, m_writeBufferLen = 0, m_writeBufferCapacity = 0,
      m_fixedLastMod = False\<rparr>"

definition openForReading :: "nat \<Rightarrow> zip_t option \<Rightarrow> WzMapBinaryZipIOStream option" where
  "openForReading zipArchiveIndex zipArchive =
     (case zipArchive of
        None \<Rightarrow> None
      | Some za \<Rightarrow> Some ((new_stream READ)\<lparr>m_pReadHandle := zip_fopen_index za zipArchiveIndex\<rparr>))"

definition openForWriting :: "string \<Rightarrow> zip_t option \<Rightarrow> bool \<Rightarrow> WzMapBinaryZipIOStream option" where
  "openForWriting filename zipArchive fixedLastMod =
     (if filename = [] \<or> zipArchive = None then None
      else Some ((new_stream WRITE)\<lparr>m_filename := filename, m_fixedLastMod := fixedLastMod\<rparr>))"

text \<open>\<open>readBytes(buffer, len)\<close>: the returned count (\<open>None\<close> is \<open>nullopt\<close>), the
  bytes stored into \<open>buffer\<close> from its start, and the stream afterwards.\<close>

definition readBytes ::
  "WzMapBinaryZipIOStream \<Rightarrow> size_t \<Rightarrow> size_t option \<times> byte list \<times> WzMapBinaryZipIOStream" where
  "readBytes s len =
     (case m_pReadHandle s of
        None \<Rightarrow> (None, [], s)
      | Some h \<Rightarrow>
         (let extraByte = (if m_extraByteRead s \<noteq> None then 1 else 0 :: size_t);
              stored = (case m_extraByteRead s of Some tmpByte \<Rightarrow> [tmpByte] | None \<Rightarrow> []);
              len1 = (if m_extraByteRead s \<noteq> None then len - 1 else len);
              s1 = s\<lparr>m_extraByteRead := None\<rparr>;
              (result, bytes, h1) = zip_fread h len1;
              s2 = s1\<lparr>m_pReadHandle := Some h1\<rparr>
          in if result < 0 then
               (if extraByte \<noteq> 0 then (Some extraByte, stored, s2) else (None, stored, s2))
             else (Some (word_of_int result + extraByte), stored @ bytes, s2)))"

text \<open>\<open>writeBytes(buffer, len)\<close>; \<open>realloc_ok n\<close> says whether \<open>realloc\<close> to \<open>n\<close>
  bytes succeeds. The caller's \<open>buffer\<close> holds at least \<open>len\<close> bytes.\<close>

definition writeBytes ::
  "(size_t \<Rightarrow> bool) \<Rightarrow> WzMapBinaryZipIOStream \<Rightarrow> byte list \<Rightarrow> size_t
     \<Rightarrow> size_t option \<times> WzMapBinaryZipIOStream" where
  "writeBytes realloc_ok s buffer len =
     (let grow = (m_writeBufferCapacity s - m_writeBufferLen s < len);
          newCapacity = max (m_writeBufferCapacity s + max (m_writeBufferCapacity s div 2) len) 1024
      in if grow \<and> \<not> realloc_ok newCapacity then (None, s)
         else
           (let s1 = (if grow then
                        s\<lparr>m_writeBuffer := Some (case m_writeBuffer s of None \<Rightarrow> [] | Some b \<Rightarrow> b),
                          m_writeBufferCapacity := newCapacity\<rparr>
                      else s)
            in (Some len,
                s1\<lparr>m_writeBuffer := map_option (\<lambda>b. b @ take (unat len) buffer) (m_writeBuffer s1),
                   m_writeBufferLen := m_writeBufferLen s1 + len\<rparr>)))"

text \<open>\<open>close()\<close>: the result, the stream and the shared archive afterwards.\<close>

definition close ::
  "WzMapBinaryZipIOStream \<Rightarrow> zip_t \<Rightarrow> bool \<times> WzMapBinaryZipIOStream \<times> zip_t" where
  "close s za =
     (if m_pReadHandle s \<noteq> None then
        (True, s\<lparr>m_pReadHandle := None, m_filename := []\<rparr>, za)
      else if m_writeBufferLen s > 0 then
        (case m_writeBuffer s of
           None \<Rightarrow> (False, s, za)
         | Some buf \<Rightarrow>
            (case zip_source_buffer za buf (m_writeBufferLen s) of
               None \<Rightarrow>
                 (False, s\<lparr>m_writeBuffer := None, m_writeBufferLen := 0,
                           m_writeBufferCapacity := 0, m_filename := []\<rparr>, za)
             | Some src \<Rightarrow>
                 (let s1 = s\<lparr>m_writeBuffer := None, m_writeBufferLen := 0, m_writeBufferCapacity := 0\<rparr>
                  in if m_filename s1 = [] then (False, s1, za)
                     else
                       (let (result, za1) = zip_file_add za (c_str (m_filename s1)) src
                        in if result < 0 then (False, s1\<lparr>m_filename := []\<rparr>, za1)
                           else (True, s1\<lparr>m_filename := []\<rparr>,
                                 if m_fixedLastMod s1
                                 then zip_file_set_dostime za1 (nat result) 0x6020 0x21
                                 else za1)))))
      else (True, s, za))"

text \<open>Modelled from the spec: \<open>readULE8\<close> of the \<open>BinaryIOStream\<close> base class,
  which is declared outside the files at hand. It is the one-byte read-ahead of section 4.2:
  it reads one byte through \<open>readBytes\<close> and succeeds when exactly one byte was
  produced.\<close>

definition readULE8 :: "WzMapBinaryZipIOStream \<Rightarrow> byte option \<times> WzMapBinaryZipIOStream" where
  "readULE8 s =
     (let (result, bytes, s1) = readBytes s 1
      in if result = Some 1 \<and> bytes \<noteq> [] then (Some (hd bytes), s1) else (None, s1))"

definition endOfStream :: "WzMapBinaryZipIOStream \<Rightarrow> bool \<times> WzMapBinaryZipIOStream" where
  "endOfStream s =
     (if m_mode s \<noteq> Some READ then (False, s)
      else if m_pReadHandle s = None then (False, s)
      else if m_extraByteRead s \<noteq> None then (False, s)
      else
        (case readULE8 s of
           (None, s1) \<Rightarrow> (True, s1)
         | (Some tmpByte, s1) \<Rightarrow> (False, s1\<lparr>m_extraByteRead := Some tmpByte\<rparr>)))"

text \<open>
  A run of \<open>writeBytes\<close> calls on one stream, each with its buffer and length:
  \<open>writeBytesAll\<close> is the stream after the last call, \<open>None\<close> when a call returned
  \<open>nullopt\<close>; \<open>bytesWritten\<close> are the bytes the calls handed over, in order.
  \<open>buffered\<close> reads the write buffer of a stream, and \<open>unallocated_is_empty\<close> says that
  a stream without a buffer has length and capacity zero.
\<close>

fun writeBytesAll ::
  "(size_t \<Rightarrow> bool) \<Rightarrow> WzMapBinaryZipIOStream \<Rightarrow> (byte list \<times> size_t) list
     \<Rightarrow> WzMapBinaryZipIOStream option" where
  "writeBytesAll realloc_ok s [] = Some s"
| "writeBytesAll realloc_ok s ((buffer, len) # rest) =
     (case writeBytes realloc_ok s buffer len of
        (None, s1) \<Rightarrow> None
      | (Some n, s1) \<Rightarrow> writeBytesAll realloc_ok s1 rest)"

definition bytesWritten :: "(byte list \<times> size_t) list \<Rightarrow> byte list" where
  "bytesWritten calls = concat (map (\<lambda>(buffer, len). take (unat len) buffer) calls)"

definition buffered :: "WzMapBinaryZipIOStream \<Rightarrow> byte list" where
  "buffered s = (case m_writeBuffer s of None \<Rightarrow> [] | Some b \<Rightarrow> b)"

definition unallocated_is_empty :: "WzMapBinaryZipIOStream \<Rightarrow> bool" where
  "unallocated_is_empty s =
     (m_writeBuffer s = None \<longrightarrow> m_writeBufferLen s = 0 \<and> m_writeBufferCapacity s = 0)"

section \<open>The Zip I/O provider\<close>

definition WzMapZipDefaultEmbeddedFileMaxFileSize :: "64 word" where
  "WzMapZipDefaultEmbeddedFileMaxFileSize = 104857600"

text \<open>
  \<open>WzMapZipIO\<close>. Every factory stores a non-null archive wrapper over a non-null
  handle, so \<open>m_zipArchive\<close> is the archive itself; it is the state the provider shares
  with its streams.
\<close>

record WzMapZipIO =
  m_zipArchive :: zip_t
  m_fixedLastModIO :: bool
  m_cachedDirectoriesList :: "string list"
  m_foundMalformedWindowsPathSeparators :: "bool option"

text \<open>The scan of \<open>determineIfMalformedWindowsPathSeparatorWorkaround\<close> over the entry
  indices; every path through it memoizes its answer.\<close>

fun determineLoop :: "zip_t \<Rightarrow> nat list \<Rightarrow> bool" where
  "determineLoop za [] = False"
| "determineLoop za (idx # rest) =
     (case zip_get_name za idx of
        None \<Rightarrow> determineLoop za rest
      | Some name \<Rightarrow>
         (case zip_file_get_external_attributes za idx of
            None \<Rightarrow> determineLoop za rest
          | Some opsys \<Rightarrow>
             if opsys = ZIP_OPSYS_DOS then
               (if BACKSLASH \<in> set name then True
                else if SLASH \<in> set name then False
                else determineLoop za rest)
             else False))"

definition determineIfMalformedWindowsPathSeparatorWorkaround :: "WzMapZipIO \<Rightarrow> bool \<times> WzMapZipIO" where
  "determineIfMalformedWindowsPathSeparatorWorkaround p =
     (let result = zip_get_num_entries (m_zipArchive p) in
      if result < 0 then (False, p)
      else
        (let r = determineLoop (m_zipArchive p) [0..<nat result]
         in (r, p\<lparr>m_foundMalformedWindowsPathSeparators := Some r\<rparr>)))"

text \<open>The macro \<open>malformed_windows_path_separators_workaround\<close>.\<close>

definition malformed_windows_path_separators_workaround :: "WzMapZipIO \<Rightarrow> bool \<times> WzMapZipIO" where
  "malformed_windows_path_separators_workaround p =
     (case m_foundMalformedWindowsPathSeparators p of
        Some v \<Rightarrow> (v, p)
      | None \<Rightarrow> determineIfMalformedWindowsPathSeparatorWorkaround p)"

text \<open>
  The scan stated on the entries instead of as a loop, for comparison with
  \<open>determineLoop\<close>. An entry is passed over when it has no name, when its attributes cannot
  be read, or when it is of DOS origin and its name has neither separator. The first entry
  that is not passed over decides: the archive is classified as malformed exactly when that
  entry is of DOS origin and its name contains a backslash; with no such entry it is not.
\<close>

definition passed_over :: "zip_entry \<Rightarrow> bool" where
  "passed_over e =
     (case e_name e of
        None \<Rightarrow> True
      | Some name \<Rightarrow>
         (case e_opsys e of
            None \<Rightarrow> True
          | Some opsys \<Rightarrow>
             opsys = ZIP_OPSYS_DOS \<and> BACKSLASH \<notin> set (c_str name) \<and> SLASH \<notin> set (c_str name)))"

definition dos_with_backslash :: "zip_entry \<Rightarrow> bool" where
  "dos_with_backslash e =
     (case e_name e of
        None \<Rightarrow> False
      | Some name \<Rightarrow> e_opsys e = Some ZIP_OPSYS_DOS \<and> BACKSLASH \<in> set (c_str name))"

definition first_decisive_entry_quirky :: "zip_entry list \<Rightarrow> bool" where
  "first_decisive_entry_quirky es =
     (case find (\<lambda>e. \<not> passed_over e) es of None \<Rightarrow> False | Some e \<Rightarrow> dos_with_backslash e)"

definition wz_zip_name_locate_impl :: "zip_t \<Rightarrow> string \<Rightarrow> bool \<Rightarrow> int" where
  "wz_zip_name_locate_impl archive fname useWindowsPathWorkaroundIfNeeded =
     (let zipLocateResult = zip_name_locate archive fname in
      if zipLocateResult < 0 then
        (if useWindowsPathWorkaroundIfNeeded
         then zip_name_locate archive (c_str (str_replace SLASH BACKSLASH (c_str fname)))
         else zipLocateResult)
      else zipLocateResult)"

text \<open>The macro \<open>wz_zip_name_locate\<close>: the workaround flag is an argument, so it is
  evaluated (and memoized) before the lookup.\<close>

definition wz_zip_name_locate :: "WzMapZipIO \<Rightarrow> string \<Rightarrow> int \<times> WzMapZipIO" where
  "wz_zip_name_locate p fname =
     (let (wk, p1) = malformed_windows_path_separators_workaround p
      in (wz_zip_name_locate_impl (m_zipArchive p1) fname wk, p1))"

datatype ZipSanityCheckResult =
  PASSED | SC_FAILURE_EXCEEDS_MAXFILESIZE | SC_FAILURE_UNSUPPORTED_COMP_METHOD

definition wzMapZipIOSanityCheckStat :: "zip_stat \<Rightarrow> 64 word \<Rightarrow> ZipSanityCheckResult" where
  "wzMapZipIOSanityCheckStat st fileSizeLimit =
     (if st_valid st AND ZIP_STAT_SIZE \<noteq> 0 \<and> fileSizeLimit < st_size st
      then SC_FAILURE_EXCEEDS_MAXFILESIZE
      else
        (let compressedFile =
               (st_valid st AND ZIP_STAT_COMP_METHOD \<noteq> 0 \<and> st_comp_method st \<noteq> ZIP_CM_STORE)
         in if compressedFile \<and> st_comp_method st \<noteq> ZIP_CM_DEFLATE
            then SC_FAILURE_UNSUPPORTED_COMP_METHOD
            else PASSED))"

definition openBinaryStream ::
  "WzMapZipIO \<Rightarrow> string \<Rightarrow> OpenMode \<Rightarrow> WzMapBinaryZipIOStream option \<times> WzMapZipIO" where
  "openBinaryStream p filename mode =
     (case mode of
        READ \<Rightarrow>
          (let (zipLocateResult, p1) = wz_zip_name_locate p (c_str filename) in
           if zipLocateResult < 0 then (None, p1)
           else
             (let zipFileIndex = nat zipLocateResult in
              case zip_stat_index (m_zipArchive p1) zipFileIndex of
                None \<Rightarrow> (None, p1)
              | Some st \<Rightarrow>
                 if wzMapZipIOSanityCheckStat st WzMapZipDefaultEmbeddedFileMaxFileSize \<noteq> PASSED
                 then (None, p1)
                 else (openForReading zipFileIndex (Some (m_zipArchive p1)), p1)))
      | WRITE \<Rightarrow> (openForWriting filename (Some (m_zipArchive p)) (m_fixedLastModIO p), p))"

datatype LoadFullFileResult =
  SUCCESS | FAILURE_OPEN | FAILURE_READ | FAILURE_EXCEEDS_MAXFILESIZE

text \<open>\<open>loadFullFile\<close>: the result, the caller's \<open>fileData\<close> afterwards, and the provider.\<close>

definition loadFullFile ::
  "WzMapZipIO \<Rightarrow> string \<Rightarrow> byte list \<Rightarrow> 32 word \<Rightarrow> bool
     \<Rightarrow> LoadFullFileResult \<times> byte list \<times> WzMapZipIO" where
  "loadFullFile p filename fileData maxFileSize appendNullCharacter =
     (let (zipLocateResult, p1) = wz_zip_name_locate p (c_str filename) in
      if zipLocateResult < 0 then (FAILURE_OPEN, fileData, p1)
      else
        (let zipFileIndex = nat zipLocateResult in
         case zip_stat_index (m_zipArchive p1) zipFileIndex of
           None \<Rightarrow> (FAILURE_OPEN, fileData, p1)
         | Some st \<Rightarrow>
            if st_valid st AND ZIP_STAT_SIZE = 0 then (FAILURE_OPEN, fileData, p1)
            else
              (case wzMapZipIOSanityCheckStat st
                      (if maxFileSize \<noteq> 0 then ucast maxFileSize
                       else WzMapZipDefaultEmbeddedFileMaxFileSize) of
                 SC_FAILURE_EXCEEDS_MAXFILESIZE \<Rightarrow> (FAILURE_EXCEEDS_MAXFILESIZE, fileData, p1)
               | SC_FAILURE_UNSUPPORTED_COMP_METHOD \<Rightarrow> (FAILURE_OPEN, fileData, p1)
               | PASSED \<Rightarrow>
                  (case openForReading zipFileIndex (Some (m_zipArchive p1)) of
                     None \<Rightarrow> (FAILURE_OPEN, fileData, p1)
                   | Some readStream \<Rightarrow>
                      (let expectedFileSize = st_size st;
                           newSize = expectedFileSize + (if appendNullCharacter then 1 else 0);
                           resized = replicate (unat newSize) (0 :: byte);
                           (result, bytes, readStream1) = readBytes readStream newSize;
                           filled = bytes @ drop (length bytes) resized
                       in case result of
                            None \<Rightarrow> (FAILURE_READ, filled, p1)
                          | Some n \<Rightarrow>
                             if n \<noteq> expectedFileSize then (FAILURE_READ, [], p1)
                             else (SUCCESS,
                                   (if appendNullCharacter
                                    then filled[length filled - 1 := 0] else filled),
                                   p1))))))"

text \<open>\<open>writeFullFile\<close>: the result of the stream's \<open>close\<close> is not looked at.\<close>

definition writeFullFile ::
  "(size_t \<Rightarrow> bool) \<Rightarrow> WzMapZipIO \<Rightarrow> string \<Rightarrow> byte list \<Rightarrow> 32 word \<Rightarrow> bool \<times> WzMapZipIO" where
  "writeFullFile realloc_ok p filename ppFileData fileSize =
     (case openForWriting filename (Some (m_zipArchive p)) (m_fixedLastModIO p) of
        None \<Rightarrow> (False, p)
      | Some writeStream \<Rightarrow>
         (case writeBytes realloc_ok writeStream ppFileData (ucast fileSize) of
            (None, writeStream1) \<Rightarrow> (False, p)
          | (Some n, writeStream1) \<Rightarrow>
             if n \<noteq> ucast fileSize then (False, p)
             else
               (let (closed, writeStream2, za1) = close writeStream1 (m_zipArchive p)
                in (True, p\<lparr>m_zipArchive := za1, m_cachedDirectoriesList := []\<rparr>))))"

definition makeDirectory :: "WzMapZipIO \<Rightarrow> string \<Rightarrow> bool" where
  "makeDirectory p directoryPath = True"

definition pathSeparator :: "string" where
  "pathSeparator = ''/''"

definition fileExists :: "WzMapZipIO \<Rightarrow> string \<Rightarrow> bool \<times> WzMapZipIO" where
  "fileExists p filename =
     (let (zipLocateResult, p1) = wz_zip_name_locate p (c_str filename)
      in if zipLocateResult < 0 then (False, p1) else (True, p1))"

text \<open>A stream opened through the provider closes onto the provider's archive; nothing
  else of the provider is within the stream's reach.\<close>

definition close_stream_of ::
  "WzMapZipIO \<Rightarrow> WzMapBinaryZipIOStream \<Rightarrow> bool \<times> WzMapBinaryZipIOStream \<times> WzMapZipIO" where
  "close_stream_of p s =
     (let (ok, s1, za1) = close s (m_zipArchive p) in (ok, s1, p\<lparr>m_zipArchive := za1\<rparr>))"

section \<open>Enumeration\<close>

definition isUnsafeZipEntryName :: "string \<Rightarrow> bool" where
  "isUnsafeZipEntryName filename =
     (if filename = [] then True
      else if has_dotdot filename then True
      else if hd filename = SLASH \<or> hd filename = BACKSLASH then True
      else if length filename \<ge> 2 \<and> filename ! 1 = CHR '':''
              \<and> ((filename ! 0 \<ge> CHR ''A'' \<and> filename ! 0 \<le> CHR ''Z'')
                 \<or> (filename ! 0 \<ge> CHR ''a'' \<and> filename ! 0 \<le> CHR ''z''))
      then True
      else False)"

text \<open>The search prefix both enumerations compute from \<open>basePath\<close>, with the flag
  \<open>emptyBasePath\<close>.\<close>

definition basePathToSearch :: "string \<Rightarrow> string \<times> bool" where
  "basePathToSearch basePath =
     (let emptyBasePath = (basePath = []);
          b = (if \<not> emptyBasePath \<and> last basePath \<noteq> SLASH then basePath @ [SLASH] else basePath)
      in if b = ''/'' then ([], True) else (b, emptyBasePath))"

text \<open>
  The separator workaround both enumerations apply to the name of entry \<open>idx\<close>: when the
  archive is classified as malformed and the entry is of DOS origin with a backslash in its
  name, every backslash becomes a forward slash. Evaluating the macro memoizes the flag.
\<close>

definition separatorWorkaround :: "WzMapZipIO \<Rightarrow> nat \<Rightarrow> string \<Rightarrow> string \<times> WzMapZipIO" where
  "separatorWorkaround p idx name =
     (let (wk, p1) = malformed_windows_path_separators_workaround p in
      if wk then
        (case zip_file_get_external_attributes (m_zipArchive p1) idx of
           None \<Rightarrow> (name, p1)
         | Some opsys \<Rightarrow>
            (if opsys = ZIP_OPSYS_DOS \<and> BACKSLASH \<in> set name
             then str_replace BACKSLASH SLASH name else name, p1))
      else (name, p1))"

text \<open>What one iteration of the loop of \<open>enumerateFilesInternal\<close> does with entry
  \<open>idx\<close>: go on to the next entry, hand a name to \<open>enumFunc\<close>, or throw.\<close>

datatype file_step = Continue | Yield string | Throw enum_error

definition enumerateFilesEntry ::
  "string \<Rightarrow> bool \<Rightarrow> bool \<Rightarrow> WzMapZipIO \<Rightarrow> nat \<Rightarrow> file_step \<times> WzMapZipIO" where
  "enumerateFilesEntry base emptyBasePath recurse p idx =
     (case zip_get_name (m_zipArchive p) idx of
        None \<Rightarrow> (Continue, p)
      | Some name \<Rightarrow>
         if name = [] then (Continue, p)
         else
           (let (nameStr, p1) = separatorWorkaround p idx name in
            if \<not> emptyBasePath \<and> \<not> strncmp_eq base nameStr (length base) then (Continue, p1)
            else if isUnsafeZipEntryName nameStr then (Continue, p1)
            else if last nameStr = SLASH then (Continue, p1)
            else if \<not> recurse \<and> str_find nameStr SLASH (length base) \<noteq> None then (Continue, p1)
            else if \<not> emptyBasePath then
              (case substr_from nameStr (length base) of
                 Inl e \<Rightarrow> (Throw e, p1)
               | Inr rel \<Rightarrow> (Yield (c_str rel), p1))
            else (Yield (c_str nameStr), p1)))"

text \<open>The callback \<open>enumFunc\<close> may keep state of its own (\<open>'s\<close>); it answers whether
  the enumeration goes on.\<close>

fun enumerateFilesLoop ::
  "string \<Rightarrow> bool \<Rightarrow> bool \<Rightarrow> ('s \<Rightarrow> string \<Rightarrow> bool \<times> 's) \<Rightarrow> nat list \<Rightarrow> WzMapZipIO \<Rightarrow> 's
     \<Rightarrow> enum_error + ('s \<times> WzMapZipIO)" where
  "enumerateFilesLoop base emptyBasePath recurse enumFunc [] p s = Inr (s, p)"
| "enumerateFilesLoop base emptyBasePath recurse enumFunc (idx # rest) p s =
     (case enumerateFilesEntry base emptyBasePath recurse p idx of
        (Continue, p1) \<Rightarrow> enumerateFilesLoop base emptyBasePath recurse enumFunc rest p1 s
      | (Throw e, p1) \<Rightarrow> Inl e
      | (Yield file, p1) \<Rightarrow>
         (case enumFunc s file of
            (False, s1) \<Rightarrow> Inr (s1, p1)
          | (True, s1) \<Rightarrow> enumerateFilesLoop base emptyBasePath recurse enumFunc rest p1 s1))"

text \<open>\<open>enumerateFilesInternal\<close>: the exception, or the returned flag with the callback's
  state and the provider afterwards.\<close>

definition enumerateFilesInternal ::
  "WzMapZipIO \<Rightarrow> string \<Rightarrow> bool \<Rightarrow> ('s \<Rightarrow> string \<Rightarrow> bool \<times> 's) option \<Rightarrow> 's
     \<Rightarrow> enum_error + (bool \<times> 's \<times> WzMapZipIO)" where
  "enumerateFilesInternal p basePath recurse enumFunc s =
     (case enumFunc of
        None \<Rightarrow> Inr (False, s, p)
      | Some f \<Rightarrow>
         (let result = zip_get_num_entries (m_zipArchive p) in
          if result < 0 then Inr (False, s, p)
          else
            (let (base, emptyBasePath) = basePathToSearch basePath in
             case enumerateFilesLoop base emptyBasePath recurse f [0..<nat result] p s of
               Inl e \<Rightarrow> Inl e
             | Inr (s1, p1) \<Rightarrow> Inr (True, s1, p1))))"

text \<open>The directory an iteration of the \<open>while\<close> loop records for \<open>nameStr\<close>: the name
  itself when it ends in a slash, else the name up to its last slash; \<open>None\<close> when there
  is no slash (the loop is left).\<close>

definition parentDirectory :: "string \<Rightarrow> string option" where
  "parentDirectory nameStr =
     (if last nameStr \<noteq> SLASH then
        (case str_rfind nameStr SLASH of
           None \<Rightarrow> None
         | Some lastSlashPos \<Rightarrow> Some (take (lastSlashPos + 1) nameStr))
      else Some nameStr)"

definition removeTrailingSlashes :: "string \<Rightarrow> string" where
  "removeTrailingSlashes nameStr =
     (let numTrailingSlash = length (takeWhile (\<lambda>c. c = SLASH) (rev nameStr))
      in take (length nameStr - numTrailingSlash) nameStr)"

text \<open>The \<open>while\<close> loop over the ancestors of one name, on the set of directories found
  so far and the list they are pushed to.\<close>

function deriveDirectories :: "string \<Rightarrow> string set \<times> string list \<Rightarrow> string set \<times> string list" where
  "deriveDirectories nameStr (found, cached) =
     (if nameStr = [] then (found, cached)
      else
        (case parentDirectory nameStr of
           None \<Rightarrow> (found, cached)
         | Some dir \<Rightarrow>
            deriveDirectories (removeTrailingSlashes dir)
              (if dir \<in> found then (found, cached) else (insert dir found, cached @ [dir]))))"
  by pat_completeness auto

termination
proof (relation "measure (\<lambda>(n, acc). length n)")
  show "wf (measure (\<lambda>(n, acc). length n))" by simp
next
  fix nameStr :: string and found :: "string set" and cached :: "string list" and dir
  assume ne: "nameStr \<noteq> []" and pd: "parentDirectory nameStr = Some dir"
  have d: "dir \<noteq> [] \<and> last dir = SLASH \<and> length dir \<le> length nameStr"
  proof (cases "last nameStr = SLASH")
    case True
    with ne pd show ?thesis by (simp add: parentDirectory_def)
  next
    case False
    with pd obtain i where i: "str_rfind nameStr SLASH = Some i" and dd: "dir = take (i + 1) nameStr"
      by (auto simp: parentDirectory_def split: option.splits)
    from i have "List.find (\<lambda>i. nameStr ! i = SLASH) (rev [0..<length nameStr]) = Some i"
      by (simp add: str_rfind_def)
    then obtain k where "k < length (rev [0..<length nameStr])"
      and "nameStr ! (rev [0..<length nameStr] ! k) = SLASH"
      and "i = rev [0..<length nameStr] ! k"
      unfolding find_Some_iff by blast
    moreover from this have "rev [0..<length nameStr] ! k \<in> set (rev [0..<length nameStr])"
      using nth_mem by blast
    ultimately have "i < length nameStr" and "nameStr ! i = SLASH" by simp_all
    then show ?thesis
      using dd by (simp add: take_Suc_conv_app_nth)
  qed
  then obtain ys where "dir = ys @ [SLASH]"
    by (metis append_butlast_last_id)
  then have "rev dir = SLASH # rev ys" by simp
  then have "0 < length (takeWhile (\<lambda>c. c = SLASH) (rev dir))" by simp
  with d have "length (removeTrailingSlashes dir) < length dir"
    by (simp add: removeTrailingSlashes_def Let_def)
  with d have "length (removeTrailingSlashes dir) < length nameStr"
    by simp
  then show "((removeTrailingSlashes dir,
               if dir \<in> found then (found, cached) else (insert dir found, cached @ [dir])),
              (nameStr, found, cached)) \<in> measure (\<lambda>(n, acc). length n)"
    by simp
qed

declare deriveDirectories.simps [simp del]

text \<open>The loop that rebuilds the directory list from all entries.\<close>

fun buildDirectoriesLoop ::
  "nat list \<Rightarrow> WzMapZipIO \<Rightarrow> string set \<times> string list \<Rightarrow> (string set \<times> string list) \<times> WzMapZipIO" where
  "buildDirectoriesLoop [] p acc = (acc, p)"
| "buildDirectoriesLoop (idx # rest) p acc =
     (case zip_get_name (m_zipArchive p) idx of
        None \<Rightarrow> buildDirectoriesLoop rest p acc
      | Some name \<Rightarrow>
         if name = [] then buildDirectoriesLoop rest p acc
         else
           (let (nameStr, p1) = separatorWorkaround p idx name in
            if isUnsafeZipEntryName nameStr then buildDirectoriesLoop rest p1 acc
            else buildDirectoriesLoop rest p1 (deriveDirectories nameStr acc)))"

text \<open>The loop over the cached directory list.\<close>

fun listFoldersLoop ::
  "string \<Rightarrow> bool \<Rightarrow> bool \<Rightarrow> ('s \<Rightarrow> string \<Rightarrow> bool \<times> 's) \<Rightarrow> string list \<Rightarrow> 's \<Rightarrow> enum_error + 's" where
  "listFoldersLoop base emptyBasePath recurse enumFunc [] s = Inr s"
| "listFoldersLoop base emptyBasePath recurse enumFunc (dirPath # rest) s =
     (if \<not> emptyBasePath \<and> \<not> strncmp_eq base dirPath (length base)
      then listFoldersLoop base emptyBasePath recurse enumFunc rest s
      else if length dirPath = length base
      then listFoldersLoop base emptyBasePath recurse enumFunc rest s
      else if \<not> recurse \<and>
              (case str_find dirPath SLASH (length base) of
                 None \<Rightarrow> False
               | Some firstSlashPos \<Rightarrow> firstSlashPos \<noteq> length dirPath - 1)
      then listFoldersLoop base emptyBasePath recurse enumFunc rest s
      else
        (case substr_from dirPath (length base) of
           Inl e \<Rightarrow> Inl e
         | Inr relativeDirPath \<Rightarrow>
            (case enumFunc s (c_str relativeDirPath) of
               (False, s1) \<Rightarrow> Inr s1
             | (True, s1) \<Rightarrow> listFoldersLoop base emptyBasePath recurse enumFunc rest s1)))"

text \<open>The first half of \<open>enumerateFoldersInternal\<close>: the directory list is rebuilt when
  it is empty. \<open>None\<close> is the early \<open>return false\<close>.\<close>

definition ensureCachedDirectoriesList :: "WzMapZipIO \<Rightarrow> WzMapZipIO option" where
  "ensureCachedDirectoriesList p =
     (if m_cachedDirectoriesList p = [] then
        (let result = zip_get_num_entries (m_zipArchive p) in
         if result < 0 then None
         else
           (let ((found, cached), p1) =
                  buildDirectoriesLoop [0..<nat result] p ({}, m_cachedDirectoriesList p)
            in Some (p1\<lparr>m_cachedDirectoriesList := sort cached\<rparr>)))
      else Some p)"

definition enumerateFoldersInternal ::
  "WzMapZipIO \<Rightarrow> string \<Rightarrow> bool \<Rightarrow> ('s \<Rightarrow> string \<Rightarrow> bool \<times> 's) option \<Rightarrow> 's
     \<Rightarrow> enum_error + (bool \<times> 's \<times> WzMapZipIO)" where
  "enumerateFoldersInternal p basePath recurse enumFunc s =
     (case enumFunc of
        None \<Rightarrow> Inr (False, s, p)
      | Some f \<Rightarrow>
         (case ensureCachedDirectoriesList p of
            None \<Rightarrow> Inr (False, s, p)
          | Some p1 \<Rightarrow>
             (let (base, emptyBasePath) = basePathToSearch basePath in
              case listFoldersLoop base emptyBasePath recurse f (m_cachedDirectoriesList p1) s of
                Inl e \<Rightarrow> Inl e
              | Inr s1 \<Rightarrow> Inr (True, s1, p1))))"

definition enumerateFiles ::
  "WzMapZipIO \<Rightarrow> string \<Rightarrow> ('s \<Rightarrow> string \<Rightarrow> bool \<times> 's) option \<Rightarrow> 's \<Rightarrow> enum_error + (bool \<times> 's \<times> WzMapZipIO)" where
  "enumerateFiles p basePath enumFunc s = enumerateFilesInternal p basePath False enumFunc s"

definition enumerateFolders ::
  "WzMapZipIO \<Rightarrow> string \<Rightarrow> ('s \<Rightarrow> string \<Rightarrow> bool \<times> 's) option \<Rightarrow> 's \<Rightarrow> enum_error + (bool \<times> 's \<times> WzMapZipIO)" where
  "enumerateFolders p basePath enumFunc s = enumerateFoldersInternal p basePath False enumFunc s"

definition enumerateFilesRecursive ::
  "WzMapZipIO \<Rightarrow> string \<Rightarrow> ('s \<Rightarrow> string \<Rightarrow> bool \<times> 's) option \<Rightarrow> 's \<Rightarrow> enum_error + (bool \<times> 's \<times> WzMapZipIO)" where
  "enumerateFilesRecursive p basePath enumFunc s = enumerateFilesInternal p basePath True enumFunc s"

definition enumerateFoldersRecursive ::
  "WzMapZipIO \<Rightarrow> string \<Rightarrow> ('s \<Rightarrow> string \<Rightarrow> bool \<times> 's) option \<Rightarrow> 's \<Rightarrow> enum_error + (bool \<times> 's \<times> WzMapZipIO)" where
  "enumerateFoldersRecursive p basePath enumFunc s = enumerateFoldersInternal p basePath True enumFunc s"

text \<open>A callback that collects every name it is given and never stops the enumeration.\<close>

definition collect :: "string list \<Rightarrow> string \<Rightarrow> bool \<times> string list" where
  "collect acc file = (True, acc @ [file])"

section \<open>The enumeration loops over the entries\<close>

text \<open>
  The name of an entry as both enumerations see it, once the archive is classified
  (\<open>wk\<close>): the separator workaround applied to the name the backend returns.
\<close>

definition entryNameStr :: "bool \<Rightarrow> zip_entry \<Rightarrow> string \<Rightarrow> string" where
  "entryNameStr wk e name =
     (if wk then
        (case e_opsys e of
           None \<Rightarrow> name
         | Some opsys \<Rightarrow>
            if opsys = ZIP_OPSYS_DOS \<and> BACKSLASH \<in> set name
            then str_replace BACKSLASH SLASH name else name)
      else name)"

text \<open>An entry that the enumerations leave out for its name: its normalized name is
  empty or unsafe.\<close>

definition unsafeEntry :: "bool \<Rightarrow> zip_entry \<Rightarrow> bool" where
  "unsafeEntry wk e =
     (case e_name e of
        None \<Rightarrow> False
      | Some name \<Rightarrow> isUnsafeZipEntryName (entryNameStr wk e (c_str name)))"

text \<open>The provider over the same archive with those entries removed, the classification
  kept as it is for the full archive.\<close>

definition withoutUnsafeEntries :: "WzMapZipIO \<Rightarrow> WzMapZipIO" where
  "withoutUnsafeEntries p =
     p\<lparr>m_zipArchive := (m_zipArchive p)\<lparr>za_entries :=
          filter (\<lambda>e. \<not> unsafeEntry (fst (malformed_windows_path_separators_workaround p)) e)
            (za_entries (m_zipArchive p))\<rparr>,
       m_foundMalformedWindowsPathSeparators :=
          Some (fst (malformed_windows_path_separators_workaround p))\<rparr>"

text \<open>What the caller observes of an enumeration: the exception, or the returned flag and
  the state of the callback.\<close>

definition outcome :: "enum_error + (bool \<times> 's \<times> WzMapZipIO) \<Rightarrow> enum_error + (bool \<times> 's)" where
  "outcome r = (case r of Inl e \<Rightarrow> Inl e | Inr (ok, s, p) \<Rightarrow> Inr (ok, s))"

definition loop_result :: "enum_error + ('s \<times> WzMapZipIO) \<Rightarrow> enum_error + 's" where
  "loop_result r = (case r of Inl e \<Rightarrow> Inl e | Inr (s, p) \<Rightarrow> Inr s)"

definition finished :: "enum_error + 's \<Rightarrow> enum_error + (bool \<times> 's)" where
  "finished r = (case r of Inl e \<Rightarrow> Inl e | Inr s \<Rightarrow> Inr (True, s))"

text \<open>The loops of both enumerations read the archive only through the entry at the
  current index and the classification; \<open>filesStep\<close>, \<open>filesLoop\<close>, \<open>dirsStep\<close> and
  \<open>dirsLoop\<close> are the same loops over the entries themselves.\<close>

definition filesStep :: "string \<Rightarrow> bool \<Rightarrow> bool \<Rightarrow> bool \<Rightarrow> zip_entry \<Rightarrow> file_step" where
  "filesStep base emptyBasePath recurse wk e =
     (case e_name e of
        None \<Rightarrow> Continue
      | Some name \<Rightarrow>
         if c_str name = [] then Continue
         else
           (let nameStr = entryNameStr wk e (c_str name) in
            if \<not> emptyBasePath \<and> \<not> strncmp_eq base nameStr (length base) then Continue
            else if isUnsafeZipEntryName nameStr then Continue
            else if last nameStr = SLASH then Continue
            else if \<not> recurse \<and> str_find nameStr SLASH (length base) \<noteq> None then Continue
            else if \<not> emptyBasePath then
              (case substr_from nameStr (length base) of
                 Inl er \<Rightarrow> Throw er
               | Inr rel \<Rightarrow> Yield (c_str rel))
            else Yield (c_str nameStr)))"

fun filesLoop ::
  "string \<Rightarrow> bool \<Rightarrow> bool \<Rightarrow> bool \<Rightarrow> ('s \<Rightarrow> string \<Rightarrow> bool \<times> 's) \<Rightarrow> zip_entry list \<Rightarrow> 's
     \<Rightarrow> enum_error + 's" where
  "filesLoop base emptyBasePath recurse wk enumFunc [] s = Inr s"
| "filesLoop base emptyBasePath recurse wk enumFunc (e # es) s =
     (case filesStep base emptyBasePath recurse wk e of
        Continue \<Rightarrow> filesLoop base emptyBasePath recurse wk enumFunc es s
      | Throw er \<Rightarrow> Inl er
      | Yield file \<Rightarrow>
         (case enumFunc s file of
            (False, s1) \<Rightarrow> Inr s1
          | (True, s1) \<Rightarrow> filesLoop base emptyBasePath recurse wk enumFunc es s1))"

definition dirsStep :: "bool \<Rightarrow> zip_entry \<Rightarrow> string set \<times> string list \<Rightarrow> string set \<times> string list" where
  "dirsStep wk e acc =
     (case e_name e of
        None \<Rightarrow> acc
      | Some name \<Rightarrow>
         if c_str name = [] then acc
         else if isUnsafeZipEntryName (entryNameStr wk e (c_str name)) then acc
         else deriveDirectories (entryNameStr wk e (c_str name)) acc)"

fun dirsLoop :: "bool \<Rightarrow> zip_entry list \<Rightarrow> string set \<times> string list \<Rightarrow> string set \<times> string list" where
  "dirsLoop wk [] acc = acc"
| "dirsLoop wk (e # es) acc = dirsLoop wk es (dirsStep wk e acc)"

section \<open>Example archives\<close>

definition realloc_always :: "size_t \<Rightarrow> bool" where
  "realloc_always n = True"

definition accept_all :: "string \<Rightarrow> bool" where
  "accept_all n = True"

text \<open>The provider as every factory leaves it: no directory list yet, the separator
  question open.\<close>

definition newWzMapZipIO :: "zip_t \<Rightarrow> bool \<Rightarrow> WzMapZipIO" where
  "newWzMapZipIO pZip fixedLastMod =
     \<lparr>m_zipArchive = pZip, m_fixedLastModIO = fixedLastMod, m_cachedDirectoriesList = [],
      m_foundMalformedWindowsPathSeparators = None\<rparr>"

definition stored_entry :: "string \<Rightarrow> 8 word \<Rightarrow> byte list \<Rightarrow> zip_entry" where
  "stored_entry name opsys content =
     \<lparr>e_name = Some name,
      e_stat = Some \<lparr>st_valid = ZIP_STAT_SIZE OR ZIP_STAT_COMP_METHOD,
                     st_size = of_nat (length content), st_comp_method = ZIP_CM_STORE\<rparr>,
      e_opsys = Some opsys, e_data = Some content, e_corrupt = False, e_dostime = None\<rparr>"

definition archive_of :: "zip_entry list \<Rightarrow> bool \<Rightarrow> zip_t" where
  "archive_of entries rdonly =
     \<lparr>za_entries = entries, za_rdonly = rdonly, za_nomem = False, za_name_ok = accept_all\<rparr>"

definition empty_writable :: WzMapZipIO where
  "empty_writable = newWzMapZipIO (archive_of [] False) False"

definition one_file :: WzMapZipIO where
  "one_file = newWzMapZipIO (archive_of [stored_entry ''a.txt'' ZIP_OPSYS_UNIX [7]] False) False"

text \<open>An entry of one byte whose checksum is wrong.\<close>

definition corrupt_one_byte :: zip_t where
  "corrupt_one_byte = archive_of [(stored_entry ''f'' ZIP_OPSYS_UNIX [0x41])\<lparr>e_corrupt := True\<rparr>] True"

text \<open>An entry of two bytes and an empty entry.\<close>

definition two_and_zero :: zip_t where
  "two_and_zero = archive_of [stored_entry ''two'' ZIP_OPSYS_UNIX [0x41, 0x42],
                              stored_entry ''zero'' ZIP_OPSYS_UNIX []] True"

text \<open>An entry with a stat of its own: the stated size and the compression method.\<close>

definition stat_entry :: "string \<Rightarrow> 64 word \<Rightarrow> 16 word \<Rightarrow> zip_entry" where
  "stat_entry name stated method =
     (stored_entry name ZIP_OPSYS_UNIX [])\<lparr>e_stat :=
        Some \<lparr>st_valid = ZIP_STAT_SIZE OR ZIP_STAT_COMP_METHOD, st_size = stated,
              st_comp_method = method\<rparr>\<rparr>"

definition oversized :: WzMapZipIO where
  "oversized = newWzMapZipIO (archive_of [stat_entry ''big.bin'' 104857601 ZIP_CM_STORE] True) False"

definition bzip2_small :: WzMapZipIO where
  "bzip2_small = newWzMapZipIO (archive_of [stat_entry ''x.bz2'' 10 12] True) False"

definition bzip2_oversized :: WzMapZipIO where
  "bzip2_oversized = newWzMapZipIO (archive_of [stat_entry ''big.bz2'' 200000000 12] True) False"

text \<open>An archive whose only entry is of DOS origin and literally named \<open>dir\file.txt\<close>.\<close>

definition dos_backslash :: WzMapZipIO where
  "dos_backslash =
     newWzMapZipIO (archive_of [stored_entry (''dir'' @ [BACKSLASH] @ ''file.txt'') ZIP_OPSYS_DOS [0x68, 0x69]] True)
       False"

text \<open>The archive of \<open>one_file\<close>, opened read-only.\<close>

definition one_file_rdonly :: WzMapZipIO where
  "one_file_rdonly = newWzMapZipIO (archive_of [stored_entry ''a.txt'' ZIP_OPSYS_UNIX [7]] True) False"

text \<open>The write stream of \<open>a.txt\<close> after the two bytes 8 and 9 were written to it.\<close>

definition two_bytes_written :: WzMapBinaryZipIOStream where
  "two_bytes_written =
     \<lparr>m_mode = Some WRITE, m_pReadHandle = None, m_extraByteRead = None, m_filename = ''a.txt'',
      m_writeBuffer = Some [8, 9], m_writeBufferLen = 2, m_writeBufferCapacity = 1024,
      m_fixedLastMod = False\<rparr>"

text \<open>An entry of stated size zero that the library cannot open.\<close>

definition unopenable_empty :: WzMapZipIO where
  "unopenable_empty =
     newWzMapZipIO (archive_of [(stored_entry ''zero'' ZIP_OPSYS_UNIX [])\<lparr>e_data := None\<rparr>] True) False"

text \<open>Two archives that store \<open>dir\file.txt\<close> with DOS origin behind another entry: one
  of Unix origin, and one of DOS origin whose name has a forward slash.\<close>

definition unix_then_dos :: WzMapZipIO where
  "unix_then_dos =
     newWzMapZipIO (archive_of [stored_entry ''x'' ZIP_OPSYS_UNIX [1],
                                stored_entry (''dir'' @ [BACKSLASH] @ ''file.txt'') ZIP_OPSYS_DOS [0x68, 0x69]] True)
       False"

definition dos_slash_then_backslash :: WzMapZipIO where
  "dos_slash_then_backslash =
     newWzMapZipIO (archive_of [stored_entry ''a/b'' ZIP_OPSYS_DOS [1],
                                stored_entry (''dir'' @ [BACKSLASH] @ ''file.txt'') ZIP_OPSYS_DOS [0x68, 0x69]] True)
       False"

text \<open>An archive of DOS origin that stores backslashes, with unsafe names around one
  regular file.\<close>

definition hostile :: WzMapZipIO where
  "hostile = newWzMapZipIO (archive_of
      [stored_entry (''ok'' @ [BACKSLASH] @ ''good.txt'') ZIP_OPSYS_DOS [1],
       stored_entry (''..'' @ [BACKSLASH] @ ''evil.txt'') ZIP_OPSYS_DOS [2],
       stored_entry ([BACKSLASH] @ ''abs.txt'') ZIP_OPSYS_DOS [3],
       stored_entry (''C:'' @ [BACKSLASH] @ ''boot.ini'') ZIP_OPSYS_DOS [4],
       stored_entry [] ZIP_OPSYS_DOS [5],
       stored_entry ''ok/sub/../../up.txt'' ZIP_OPSYS_UNIX [6]] True) False"

definition abc :: WzMapZipIO where
  "abc = newWzMapZipIO (archive_of [stored_entry ''a/b/c.txt'' ZIP_OPSYS_UNIX [1]] True) False"

text \<open>The provider of an enumeration's result.\<close>

definition provider_of :: "enum_error + (bool \<times> 's \<times> WzMapZipIO) \<Rightarrow> WzMapZipIO \<Rightarrow> WzMapZipIO" where
  "provider_of r p = (case r of Inl e \<Rightarrow> p | Inr (ok, s, p') \<Rightarrow> p')"

text \<open>A writable archive with one file in directory \<open>a\<close>; its folders are listed once,
  then one byte is written to \<open>b/y.txt\<close>, through a write stream on one side and through
  \<open>writeFullFile\<close> on the other.\<close>

definition a_only :: WzMapZipIO where
  "a_only = newWzMapZipIO (archive_of [stored_entry ''a/x.txt'' ZIP_OPSYS_UNIX [1]] False) False"

definition a_listed :: WzMapZipIO where
  "a_listed = provider_of (enumerateFolders a_only [] (Some collect) []) a_only"

definition b_stream_written :: WzMapBinaryZipIOStream where
  "b_stream_written =
     snd (writeBytes realloc_always (the (fst (openBinaryStream a_listed ''b/y.txt'' WRITE))) [0x42] 1)"

definition after_stream_close :: WzMapZipIO where
  "after_stream_close = snd (snd (close_stream_of a_listed b_stream_written))"

definition after_writeFullFile :: WzMapZipIO where
  "after_writeFullFile = snd (writeFullFile realloc_always a_listed ''b/y.txt'' [0x42] 1)"

section \<open>Facts about the backend model\<close>

text \<open>The definitions that the evaluation of an example unfolds.\<close>

lemmas eval_defs = realloc_always_def accept_all_def newWzMapZipIO_def stored_entry_def archive_of_def
  empty_writable_def writeFullFile_def openForWriting_def new_stream_def writeBytes_def close_def
  zip_source_buffer_def zip_file_add_def zip_name_locate_def c_str_def buffer_stat_def
  loadFullFile_def wz_zip_name_locate_def malformed_windows_path_separators_workaround_def
  determineIfMalformedWindowsPathSeparatorWorkaround_def zip_get_num_entries_def
  wz_zip_name_locate_impl_def str_replace_def zip_get_name_def zip_file_get_external_attributes_def
  zip_stat_index_def zip_fopen_index_def zip_fread_def readBytes_def openForReading_def
  wzMapZipIOSanityCheckStat_def WzMapZipDefaultEmbeddedFileMaxFileSize_def
  ZIP_STAT_SIZE_def ZIP_STAT_COMP_SIZE_def ZIP_STAT_MTIME_def ZIP_STAT_COMP_METHOD_def
  ZIP_STAT_ENCRYPTION_METHOD_def ZIP_STAT_FLAGS_def ZIP_CM_STORE_def ZIP_CM_DEFLATE_def
  ZIP_OPSYS_DOS_def ZIP_OPSYS_UNIX_def ZIP_INT64_MAX_def zip_file_set_dostime_def
  openBinaryStream_def fileExists_def endOfStream_def readULE8_def one_file_def
  corrupt_one_byte_def two_and_zero_def stat_entry_def oversized_def bzip2_small_def
  bzip2_oversized_def

lemma c_str_idem: "c_str (c_str s) = c_str s"
  by (simp add: c_str_def takeWhile_idem)

lemma unat_ucast_32_64: "unat (ucast (w :: 32 word) :: 64 word) = unat w"
proof -
  have "unat w < 2 ^ 32" using unsigned_less [of w] by simp
  then have "unat w < 2 ^ 64" by simp
  then show ?thesis by (simp add: unsigned_ucast_eq take_bit_nat_eq_self)
qed

lemma locate_from_range:
  "locate_from es f i = -1 \<or> (int i \<le> locate_from es f i \<and> locate_from es f i < int i + int (length es))"
  by (induction es f i rule: locate_from.induct) auto

lemma locate_from_names:
  "map e_name es = map e_name es' \<Longrightarrow> locate_from es f i = locate_from es' f i"
proof (induction es f i arbitrary: es' rule: locate_from.induct)
  case (1 fname i)
  then show ?case by simp
next
  case (2 e es fname i)
  then obtain e' es'' where "es' = e' # es''" by (cases es') auto
  with 2 show ?case by auto
qed

lemma locate_from_append_new:
  "locate_from es f i < 0 \<Longrightarrow> map_option c_str (e_name e) = Some f \<Longrightarrow>
     locate_from (es @ [e]) f i = int i + int (length es)"
  by (induction es f i rule: locate_from.induct) (auto split: if_splits)

text \<open>After a successful \<open>zip_file_add\<close> the name is found at the returned index, with
  the buffer's stat and the buffer as content.\<close>

lemma zip_file_add_result:
  assumes "\<not> za_rdonly za" and "za_name_ok za name" and "c_str name = name"
  shows "0 \<le> fst (zip_file_add za name src)
       \<and> zip_name_locate (snd (zip_file_add za name src)) name = fst (zip_file_add za name src)
       \<and> zip_stat_index (snd (zip_file_add za name src)) (nat (fst (zip_file_add za name src)))
            = Some (buffer_stat src)
       \<and> zip_fopen_index (snd (zip_file_add za name src)) (nat (fst (zip_file_add za name src)))
            = Some \<lparr>zf_data = src, zf_corrupt = False, zf_error = False\<rparr>"
proof (cases "zip_name_locate za name < 0")
  case True
  then have "locate_from (za_entries za) name 0 < 0" by (simp add: zip_name_locate_def)
  from locate_from_append_new [OF this, of "\<lparr>e_name = Some name, e_stat = Some (buffer_stat src),
                   e_opsys = Some ZIP_OPSYS_UNIX, e_data = Some src, e_corrupt = False,
                   e_dostime = None\<rparr>"] assms True
  show ?thesis
    by (simp add: zip_file_add_def Let_def zip_name_locate_def zip_stat_index_def zip_fopen_index_def)
next
  case False
  let ?i = "locate_from (za_entries za) name 0"
  have i0: "0 \<le> ?i" using False by (simp add: zip_name_locate_def)
  have il: "nat ?i < length (za_entries za)"
    using locate_from_range [of "za_entries za" name 0] i0 by auto
  let ?es' = "(za_entries za)[nat ?i :=
                 (za_entries za ! nat ?i)\<lparr>e_stat := Some (buffer_stat src), e_data := Some src,
                                          e_corrupt := False\<rparr>]"
  have "map e_name ?es' = map e_name (za_entries za)"
    using il by (simp add: map_update list_update_same_conv)
  then have "locate_from ?es' name 0 = ?i"
    using locate_from_names [of ?es' "za_entries za" name 0] by simp
  then show ?thesis
    using assms i0 il
    by (simp add: zip_file_add_def Let_def zip_name_locate_def zip_stat_index_def zip_fopen_index_def)
qed

lemma zip_file_add_existing:
  assumes "0 \<le> zip_name_locate za name" and "\<not> za_rdonly za" and "za_name_ok za name"
  shows "fst (zip_file_add za name src) = zip_name_locate za name
       \<and> length (za_entries (snd (zip_file_add za name src))) = length (za_entries za)"
  using assms by (simp add: zip_file_add_def Let_def)

lemma set_dostime_length:
  "length (za_entries (zip_file_set_dostime za idx t d)) = length (za_entries za)"
  by (simp add: zip_file_set_dostime_def)

lemma set_dostime_preserves:
  "zip_name_locate (zip_file_set_dostime za idx t d) f = zip_name_locate za f"
  "zip_stat_index (zip_file_set_dostime za idx t d) j = zip_stat_index za j"
  "zip_fopen_index (zip_file_set_dostime za idx t d) j = zip_fopen_index za j"
proof -
  let ?es' = "(za_entries za)[idx := (za_entries za ! idx)\<lparr>e_dostime := Some (t, d)\<rparr>]"
  have "idx < length (za_entries za) \<Longrightarrow> map e_name ?es' = map e_name (za_entries za)"
    by (simp add: map_update list_update_same_conv)
  then show "zip_name_locate (zip_file_set_dostime za idx t d) f = zip_name_locate za f"
    using locate_from_names [of ?es' "za_entries za" f 0]
    by (simp add: zip_file_set_dostime_def zip_name_locate_def)
  show "zip_stat_index (zip_file_set_dostime za idx t d) j = zip_stat_index za j"
    by (cases "j = idx") (simp_all add: zip_file_set_dostime_def zip_stat_index_def)
  show "zip_fopen_index (zip_file_set_dostime za idx t d) j = zip_fopen_index za j"
    by (cases "j = idx") (auto simp: zip_file_set_dostime_def zip_fopen_index_def split: option.splits)
qed

text \<open>A successful \<open>zip_file_add\<close> touches the entry of that name only, or appends one;
  setting the time stamp of an entry leaves the others as they are.\<close>

lemma zip_file_add_others:
  assumes "\<not> za_rdonly za" and "za_name_ok za name"
  shows "(0 \<le> zip_name_locate za name \<longrightarrow>
            (za_entries (snd (zip_file_add za name src)))
               [nat (zip_name_locate za name) := za_entries za ! nat (zip_name_locate za name)]
              = za_entries za)
       \<and> (zip_name_locate za name < 0 \<longrightarrow>
            fst (zip_file_add za name src) = int (length (za_entries za))
          \<and> length (za_entries (snd (zip_file_add za name src))) = Suc (length (za_entries za))
          \<and> take (length (za_entries za)) (za_entries (snd (zip_file_add za name src))) = za_entries za)"
  using assms by (simp add: zip_file_add_def Let_def)

lemma set_dostime_others:
  "(za_entries (zip_file_set_dostime za idx t d))[idx := e] = (za_entries za)[idx := e]"
  "length es \<le> idx \<Longrightarrow> take (length es) (za_entries (zip_file_set_dostime za idx t d))
      = take (length es) (za_entries za)"
  by (simp_all add: zip_file_set_dostime_def)

lemma buffer_stat_size_valid: "st_valid (buffer_stat d) AND ZIP_STAT_SIZE \<noteq> 0"
  by (simp add: buffer_stat_def ZIP_STAT_SIZE_def ZIP_STAT_MTIME_def ZIP_STAT_COMP_SIZE_def
      ZIP_STAT_COMP_METHOD_def ZIP_STAT_ENCRYPTION_METHOD_def ZIP_STAT_FLAGS_def)

section \<open>Facts about name lookup\<close>

lemma workaround_archive:
  "m_zipArchive (snd (malformed_windows_path_separators_workaround p)) = m_zipArchive p"
  by (simp add: malformed_windows_path_separators_workaround_def
      determineIfMalformedWindowsPathSeparatorWorkaround_def Let_def split: option.splits)

lemma wz_zip_name_locate_archive:
  "m_zipArchive (snd (wz_zip_name_locate p f)) = m_zipArchive p"
  by (simp add: wz_zip_name_locate_def split_beta workaround_archive)

lemma wz_zip_name_locate_literal:
  "0 \<le> zip_name_locate (m_zipArchive p) f \<Longrightarrow>
     fst (wz_zip_name_locate p f) = zip_name_locate (m_zipArchive p) f"
  by (simp add: wz_zip_name_locate_def split_beta workaround_archive wz_zip_name_locate_impl_def)

section \<open>The stream's look-ahead byte\<close>

text \<open>
  C10. A read stream that holds a look-ahead byte (stored by an earlier \<open>endOfStream\<close>)
  and is asked for \<open>len \<ge> 1\<close> bytes returns 1 when the backend read fails: the cached byte
  is delivered and the stream keeps no look-ahead. With the read handle open, "no value"
  comes back exactly when no look-ahead byte was pending and the backend read failed.
\<close>

theorem readBytes_lookahead_survives_failure:
  assumes "m_pReadHandle s = Some h"
  shows "(m_extraByteRead s = Some b \<and> 1 \<le> len \<and> fst (zip_fread h (len - 1)) < 0 \<longrightarrow>
            readBytes s len =
              (Some 1, [b],
               s\<lparr>m_extraByteRead := None, m_pReadHandle := Some (snd (snd (zip_fread h (len - 1))))\<rparr>))
       \<and> (fst (readBytes s len) = None \<longleftrightarrow>
            m_extraByteRead s = None \<and> fst (zip_fread h len) < 0)"
  using assms by (auto simp: readBytes_def Let_def split: prod.splits option.splits)

text \<open>
  Witness for C10: the one-byte entry with a wrong checksum. The probe caches the byte; the
  read of two bytes that follows meets the backend's failure and still returns the byte.
\<close>

theorem readBytes_lookahead_survives_failure_witness:
  "endOfStream (the (openForReading 0 (Some corrupt_one_byte)))
     = (False, (new_stream READ)\<lparr>m_pReadHandle := Some \<lparr>zf_data = [], zf_corrupt = True, zf_error = False\<rparr>,
                                  m_extraByteRead := Some 0x41\<rparr>)
   \<and> fst (zip_fread \<lparr>zf_data = [], zf_corrupt = True, zf_error = False\<rparr> (2 - 1)) < 0
   \<and> readBytes ((new_stream READ)\<lparr>m_pReadHandle := Some \<lparr>zf_data = [], zf_corrupt = True, zf_error = False\<rparr>,
                                   m_extraByteRead := Some 0x41\<rparr>) 2
       = (Some 1, [0x41],
          (new_stream READ)\<lparr>m_pReadHandle := Some \<lparr>zf_data = [], zf_corrupt = True, zf_error = True\<rparr>\<rparr>)"
proof -
  let ?h = "\<lparr>zf_data = [], zf_corrupt = True, zf_error = False\<rparr>"
  let ?s = "(new_stream READ)\<lparr>m_pReadHandle := Some ?h, m_extraByteRead := Some 0x41\<rparr>"
  have e: "endOfStream (the (openForReading 0 (Some corrupt_one_byte))) = (False, ?s)"
    by (simp add: eval_defs Let_def)
  have h: "m_pReadHandle ?s = Some ?h" by (simp add: new_stream_def)
  have f: "fst (zip_fread ?h (2 - 1)) < 0" by (simp add: zip_fread_def ZIP_INT64_MAX_def)
  have x: "m_extraByteRead ?s = Some 0x41" by (simp add: new_stream_def)
  from readBytes_lookahead_survives_failure [OF h, of "0x41" 2] f x
  have "readBytes ?s 2 = (Some 1, [0x41],
          ?s\<lparr>m_extraByteRead := None, m_pReadHandle := Some (snd (snd (zip_fread ?h (2 - 1))))\<rparr>)"
    by simp
  then show ?thesis
    using e f by (simp add: zip_fread_def ZIP_INT64_MAX_def new_stream_def)
qed

text \<open>
  C4, as amended. A stream that is not in read mode, or whose backend handle is null because
  the entry could not be opened, answers false and is left as it is. For a stream in read
  mode with an open handle: \<open>endOfStream\<close> is true exactly when no look-ahead byte is
  pending and the one-byte read fails, which is when the backend's data is exhausted or the
  backend is in its error state (then also with data left unread). Otherwise it is false: a
  pending byte is left in place, and else the first byte of the data is read and cached.
  After a false answer a look-ahead byte is pending, and every \<open>readBytes\<close> of at least
  one byte yields that byte first. A stream whose handle is open over an entry of no bytes
  reports end of stream on the first call; one opened over an entry that cannot be opened
  reports false.
\<close>

theorem endOfStream_probe:
  "(m_mode s \<noteq> Some READ \<longrightarrow> endOfStream s = (False, s))
   \<and> (m_pReadHandle s = None \<longrightarrow> endOfStream s = (False, s))
   \<and> (m_mode s = Some READ \<and> m_pReadHandle s = Some h \<longrightarrow>
      (fst (endOfStream s) \<longleftrightarrow> m_extraByteRead s = None \<and> fst (readULE8 s) = None)
    \<and> (fst (endOfStream s) \<longleftrightarrow> m_extraByteRead s = None \<and> (zf_error h \<or> zf_data h = []))
    \<and> (m_extraByteRead s = Some b \<longrightarrow> endOfStream s = (False, s))
    \<and> (m_extraByteRead s = None \<and> \<not> zf_error h \<and> zf_data h = b # rest \<longrightarrow>
          endOfStream s =
            (False, s\<lparr>m_pReadHandle := Some (h\<lparr>zf_data := rest\<rparr>), m_extraByteRead := Some b\<rparr>))
    \<and> (endOfStream s = (False, s') \<longrightarrow>
          (\<exists>c h'. m_extraByteRead s' = Some c \<and> m_pReadHandle s' = Some h' \<and> m_mode s' = Some READ \<and>
             (\<forall>len. 1 \<le> len \<longrightarrow>
                (\<exists>n more s''. readBytes s' len = (Some n, c # more, s'') \<and> m_extraByteRead s'' = None)))))
   \<and> (idx < length (za_entries za) \<and> e_data (za_entries za ! idx) = Some [] \<longrightarrow>
        (\<exists>s0. openForReading idx (Some za) = Some s0 \<and> fst (endOfStream s0)))
   \<and> (idx < length (za_entries za) \<and> e_data (za_entries za ! idx) = None \<longrightarrow>
        (\<exists>s0. openForReading idx (Some za) = Some s0 \<and> m_mode s0 = Some READ
              \<and> endOfStream s0 = (False, s0)))"
proof (intro conjI impI)
  show "endOfStream s = (False, s)" if "m_mode s \<noteq> Some READ"
    using that by (simp add: endOfStream_def)
  show "endOfStream s = (False, s)" if "m_pReadHandle s = None"
    using that by (simp add: endOfStream_def)
next
  assume a: "m_mode s = Some READ \<and> m_pReadHandle s = Some h"
  show "fst (endOfStream s) \<longleftrightarrow> m_extraByteRead s = None \<and> fst (readULE8 s) = None"
    using a by (auto simp: endOfStream_def split: prod.splits option.splits)
  show "fst (endOfStream s) \<longleftrightarrow> m_extraByteRead s = None \<and> (zf_error h \<or> zf_data h = [])"
    using a
    by (cases "zf_data h"; cases "zf_error h")
       (auto simp: endOfStream_def readULE8_def readBytes_def Let_def zip_fread_def ZIP_INT64_MAX_def
             split: prod.splits option.splits)
  show "endOfStream s = (False, s)" if "m_extraByteRead s = Some b"
    using a that by (simp add: endOfStream_def)
  show "endOfStream s =
          (False, s\<lparr>m_pReadHandle := Some (h\<lparr>zf_data := rest\<rparr>), m_extraByteRead := Some b\<rparr>)"
    if "m_extraByteRead s = None \<and> \<not> zf_error h \<and> zf_data h = b # rest"
    using a that
    by (simp add: endOfStream_def readULE8_def readBytes_def Let_def zip_fread_def ZIP_INT64_MAX_def)
  show "\<exists>c h'. m_extraByteRead s' = Some c \<and> m_pReadHandle s' = Some h' \<and> m_mode s' = Some READ \<and>
             (\<forall>len. 1 \<le> len \<longrightarrow>
                (\<exists>n more s''. readBytes s' len = (Some n, c # more, s'') \<and> m_extraByteRead s'' = None))"
    if "endOfStream s = (False, s')"
    using a that
    by (auto simp: endOfStream_def readULE8_def readBytes_def Let_def
             split: prod.splits option.splits if_splits)
next
  assume "idx < length (za_entries za) \<and> e_data (za_entries za ! idx) = Some []"
  then show "\<exists>s0. openForReading idx (Some za) = Some s0 \<and> fst (endOfStream s0)"
    by (simp add: openForReading_def zip_fopen_index_def new_stream_def endOfStream_def readULE8_def
        readBytes_def zip_fread_def ZIP_INT64_MAX_def Let_def)
next
  assume "idx < length (za_entries za) \<and> e_data (za_entries za ! idx) = None"
  then show "\<exists>s0. openForReading idx (Some za) = Some s0 \<and> m_mode s0 = Some READ
              \<and> endOfStream s0 = (False, s0)"
    by (simp add: openForReading_def zip_fopen_index_def new_stream_def endOfStream_def)
qed

text \<open>
  Counterexample to C4 as stated. The entry \<open>zero\<close> states size zero, but the library
  cannot open it: \<open>openBinaryStream\<close> still returns a read stream, and its
  \<open>endOfStream\<close> is false on the first call. And on the two-byte entry, after the probe
  has cached the first byte, a \<open>readBytes\<close> of length 0 asks the backend for
  \<open>0 - 1\<close> bytes, which it refuses with its error set; the next \<open>endOfStream\<close> is
  true although the second byte was never read.
\<close>

theorem endOfStream_counterexample:
  "fst (openBinaryStream unopenable_empty ''zero'' READ) = Some (new_stream READ)
   \<and> zip_stat_index (m_zipArchive unopenable_empty) 0
       = Some \<lparr>st_valid = ZIP_STAT_SIZE OR ZIP_STAT_COMP_METHOD, st_size = 0, st_comp_method = ZIP_CM_STORE\<rparr>
   \<and> fst (endOfStream (new_stream READ)) = False
   \<and> snd (endOfStream (the (openForReading 0 (Some two_and_zero))))
       = (new_stream READ)\<lparr>m_pReadHandle := Some \<lparr>zf_data = [0x42], zf_corrupt = False, zf_error = False\<rparr>,
                            m_extraByteRead := Some 0x41\<rparr>
   \<and> readBytes ((new_stream READ)\<lparr>m_pReadHandle := Some \<lparr>zf_data = [0x42], zf_corrupt = False, zf_error = False\<rparr>,
                                   m_extraByteRead := Some 0x41\<rparr>) 0
       = (Some 1, [0x41],
          (new_stream READ)\<lparr>m_pReadHandle := Some \<lparr>zf_data = [0x42], zf_corrupt = False, zf_error = True\<rparr>\<rparr>)
   \<and> fst (endOfStream
        ((new_stream READ)\<lparr>m_pReadHandle := Some \<lparr>zf_data = [0x42], zf_corrupt = False, zf_error = True\<rparr>\<rparr>))
       = True"
  by (simp add: unopenable_empty_def eval_defs Let_def)

text \<open>
  Witness for C4 as amended: the two-byte entry is probed (false, first byte cached) and
  read; the empty entry reports end of stream at once; the stream without a handle and the
  stream in write mode answer false.
\<close>

theorem endOfStream_probe_witness:
  "openForReading 0 (Some two_and_zero)
     = Some ((new_stream READ)\<lparr>m_pReadHandle := Some \<lparr>zf_data = [0x41, 0x42], zf_corrupt = False, zf_error = False\<rparr>\<rparr>)
   \<and> endOfStream ((new_stream READ)\<lparr>m_pReadHandle := Some \<lparr>zf_data = [0x41, 0x42], zf_corrupt = False, zf_error = False\<rparr>\<rparr>)
       = (False, (new_stream READ)\<lparr>m_pReadHandle := Some \<lparr>zf_data = [0x42], zf_corrupt = False, zf_error = False\<rparr>,
                                    m_extraByteRead := Some 0x41\<rparr>)
   \<and> fst (snd (readBytes ((new_stream READ)\<lparr>m_pReadHandle := Some \<lparr>zf_data = [0x42], zf_corrupt = False, zf_error = False\<rparr>,
                                    m_extraByteRead := Some 0x41\<rparr>) 2)) = [0x41, 0x42]
   \<and> fst (endOfStream (the (openForReading 1 (Some two_and_zero))))
   \<and> openForReading 0 (Some (m_zipArchive unopenable_empty)) = Some (new_stream READ)
   \<and> endOfStream (new_stream READ) = (False, new_stream READ)
   \<and> endOfStream (new_stream WRITE) = (False, new_stream WRITE)"
proof -
  let ?h = "\<lparr>zf_data = [0x41, 0x42 :: byte], zf_corrupt = False, zf_error = False\<rparr>"
  let ?s = "(new_stream READ)\<lparr>m_pReadHandle := Some ?h\<rparr>"
  have o: "openForReading 0 (Some two_and_zero) = Some ?s"
    by (simp add: eval_defs)
  have m: "m_mode ?s = Some READ \<and> m_pReadHandle ?s = Some ?h" by (simp add: new_stream_def)
  have x: "m_extraByteRead ?s = None \<and> \<not> zf_error ?h \<and> zf_data ?h = 0x41 # [0x42]"
    by (simp add: new_stream_def)
  have z: "1 < length (za_entries two_and_zero) \<and> e_data (za_entries two_and_zero ! 1) = Some []"
    by (simp add: eval_defs)
  from endOfStream_probe [of ?s ?h "0x41" "[0x42]" _ 1 two_and_zero] m x z
  have e: "endOfStream ?s = (False, ?s\<lparr>m_pReadHandle := Some (?h\<lparr>zf_data := [0x42]\<rparr>), m_extraByteRead := Some 0x41\<rparr>)"
    and z1: "\<exists>s0. openForReading 1 (Some two_and_zero) = Some s0 \<and> fst (endOfStream s0)"
    by blast+
  have u: "openForReading 0 (Some (m_zipArchive unopenable_empty)) = Some (new_stream READ)"
    by (simp add: unopenable_empty_def eval_defs)
  have n: "m_pReadHandle (new_stream READ) = None" "m_mode (new_stream WRITE) \<noteq> Some READ"
    by (simp_all add: new_stream_def)
  from endOfStream_probe [of "new_stream READ"] endOfStream_probe [of "new_stream WRITE"] n
  have f: "endOfStream (new_stream READ) = (False, new_stream READ)"
    "endOfStream (new_stream WRITE) = (False, new_stream WRITE)"
    by blast+
  show ?thesis
    using o e z1 u f by (auto simp: new_stream_def readBytes_def zip_fread_def ZIP_INT64_MAX_def)
qed

section \<open>Opening a stream for writing\<close>

text \<open>Each successful \<open>writeBytes\<close> appends its bytes to the buffer and adds its length;
  name, handle and time-stamp policy of the stream stay.\<close>

lemma writeBytes_appends:
  assumes "writeBytes realloc_ok s buffer len = (Some n, s')" and "unallocated_is_empty s"
  shows "m_writeBufferLen s' = m_writeBufferLen s + len
       \<and> buffered s' = buffered s @ take (unat len) buffer
       \<and> m_filename s' = m_filename s \<and> m_pReadHandle s' = m_pReadHandle s
       \<and> m_fixedLastMod s' = m_fixedLastMod s \<and> unallocated_is_empty s'"
  using assms
  by (cases "m_writeBuffer s")
     (auto simp: writeBytes_def Let_def buffered_def unallocated_is_empty_def word_gt_0
           split: if_splits)

lemma writeBytesAll_appends:
  assumes "writeBytesAll realloc_ok s calls = Some s'" and "unallocated_is_empty s"
    and "\<forall>c \<in> set calls. unat (snd c) \<le> length (fst c)"
  shows "m_writeBufferLen s' = m_writeBufferLen s + of_nat (length (bytesWritten calls))
       \<and> buffered s' = buffered s @ bytesWritten calls
       \<and> m_filename s' = m_filename s \<and> m_pReadHandle s' = m_pReadHandle s
       \<and> m_fixedLastMod s' = m_fixedLastMod s \<and> unallocated_is_empty s'"
  using assms
proof (induction calls arbitrary: s)
  case Nil
  then show ?case by (simp add: bytesWritten_def)
next
  case (Cons c calls)
  obtain buffer len where c: "c = (buffer, len)" by (cases c)
  from Cons.prems(1) obtain n s1 where w: "writeBytes realloc_ok s buffer len = (Some n, s1)"
    and r: "writeBytesAll realloc_ok s1 calls = Some s'"
    unfolding c by (auto split: prod.splits option.splits)
  note a = writeBytes_appends [OF w Cons.prems(2)]
  from a have u: "unallocated_is_empty s1" by blast
  have q: "\<forall>c \<in> set calls. unat (snd c) \<le> length (fst c)" using Cons.prems(3) by simp
  note b = Cons.IH [OF r u q]
  have l: "unat len \<le> length buffer" using Cons.prems(3) c by simp
  have bw: "bytesWritten (c # calls) = take (unat len) buffer @ bytesWritten calls"
    by (simp add: bytesWritten_def c)
  have "of_nat (length (take (unat len) buffer)) = len"
    using l by (simp add: min_absorb2)
  then have ln: "(of_nat (length (bytesWritten (c # calls))) :: size_t)
               = len + of_nat (length (bytesWritten calls))"
    unfolding bw by simp
  have mn: "(word_of_nat (min (length buffer) (unat len)) :: size_t) = len"
    using l by (simp add: min_absorb2)
  show ?case
    using a b by (simp add: bw mn add.assoc)
qed

text \<open>
  C6, as amended. For a non-empty file name \<open>openBinaryStream(filename, WRITE)\<close> returns
  a write stream, and the provider is unchanged; the stream does not depend on the archive,
  so it is the same whether or not an entry of that name exists. A close of that stream
  with nothing written (no call, or calls of length zero only) returns true and leaves
  stream and archive as they are. After successful writes of at least one byte in total
  (each from a buffer that holds its length, fewer than \<open>2 ^ 64\<close> bytes together), the
  close depends on the backend. When the archive is not read-only, the backend can allocate
  the source and it takes the name, the close returns true and the written bytes are the
  content of the entry of that name: an existing entry is replaced in place (same index,
  same number of entries, every other entry as before), otherwise one entry is appended
  behind the others. When the archive is read-only, or the backend cannot allocate the
  source or refuses the name, the close returns false and the archive is as before.
\<close>

theorem openBinaryStream_write:
  assumes "filename \<noteq> []"
  shows "openBinaryStream p filename WRITE
           = (Some ((new_stream WRITE)\<lparr>m_filename := filename, m_fixedLastMod := m_fixedLastModIO p\<rparr>), p)
       \<and> fst (openBinaryStream (p\<lparr>m_zipArchive := za\<rparr>) filename WRITE)
           = fst (openBinaryStream p filename WRITE)
       \<and> (fst (openBinaryStream p filename WRITE) = Some ws \<longrightarrow> close ws za = (True, ws, za))
       \<and> (fst (openBinaryStream p filename WRITE) = Some ws
             \<and> writeBytesAll realloc_ok ws calls = Some written
             \<and> (\<forall>c \<in> set calls. unat (snd c) \<le> length (fst c))
             \<and> length (bytesWritten calls) < 2 ^ 64
           \<longrightarrow>
             (bytesWritten calls = [] \<longrightarrow> close written za = (True, written, za))
           \<and> (bytesWritten calls \<noteq> []
                \<and> \<not> za_rdonly za \<and> \<not> za_nomem za \<and> za_name_ok za (c_str filename) \<longrightarrow>
                  fst (close written za)
                \<and> 0 \<le> zip_name_locate (snd (snd (close written za))) (c_str filename)
                \<and> zip_fopen_index (snd (snd (close written za)))
                      (nat (zip_name_locate (snd (snd (close written za))) (c_str filename)))
                    = Some \<lparr>zf_data = bytesWritten calls, zf_corrupt = False, zf_error = False\<rparr>
                \<and> (0 \<le> zip_name_locate za (c_str filename) \<longrightarrow>
                      length (za_entries (snd (snd (close written za)))) = length (za_entries za)
                    \<and> zip_name_locate (snd (snd (close written za))) (c_str filename)
                        = zip_name_locate za (c_str filename)
                    \<and> (za_entries (snd (snd (close written za))))
                         [nat (zip_name_locate za (c_str filename)) :=
                            za_entries za ! nat (zip_name_locate za (c_str filename))]
                        = za_entries za)
                \<and> (zip_name_locate za (c_str filename) < 0 \<longrightarrow>
                      length (za_entries (snd (snd (close written za)))) = Suc (length (za_entries za))
                    \<and> zip_name_locate (snd (snd (close written za))) (c_str filename)
                        = int (length (za_entries za))
                    \<and> take (length (za_entries za)) (za_entries (snd (snd (close written za))))
                        = za_entries za))
           \<and> (bytesWritten calls \<noteq> []
                \<and> (za_rdonly za \<or> za_nomem za \<or> \<not> za_name_ok za (c_str filename)) \<longrightarrow>
                  \<not> fst (close written za) \<and> snd (snd (close written za)) = za))"
proof (intro conjI impI)
  show "openBinaryStream p filename WRITE
           = (Some ((new_stream WRITE)\<lparr>m_filename := filename, m_fixedLastMod := m_fixedLastModIO p\<rparr>), p)"
    using assms by (simp add: openBinaryStream_def openForWriting_def)
  show "fst (openBinaryStream (p\<lparr>m_zipArchive := za\<rparr>) filename WRITE)
           = fst (openBinaryStream p filename WRITE)"
    by (simp add: openBinaryStream_def openForWriting_def)
  show "close ws za = (True, ws, za)" if "fst (openBinaryStream p filename WRITE) = Some ws"
    using that assms by (auto simp: openBinaryStream_def openForWriting_def close_def new_stream_def)
next
  assume h: "fst (openBinaryStream p filename WRITE) = Some ws
             \<and> writeBytesAll realloc_ok ws calls = Some written
             \<and> (\<forall>c \<in> set calls. unat (snd c) \<le> length (fst c))
             \<and> length (bytesWritten calls) < 2 ^ 64"
  then have ws: "ws = (new_stream WRITE)\<lparr>m_filename := filename, m_fixedLastMod := m_fixedLastModIO p\<rparr>"
    using assms by (simp add: openBinaryStream_def openForWriting_def)
  have fresh: "unallocated_is_empty ws" "m_writeBufferLen ws = 0" "buffered ws = []"
    "m_filename ws = filename" "m_pReadHandle ws = None" "m_fixedLastMod ws = m_fixedLastModIO p"
    unfolding ws by (simp_all add: unallocated_is_empty_def buffered_def new_stream_def)
  from h have wa: "writeBytesAll realloc_ok ws calls = Some written"
    and fit: "\<forall>c \<in> set calls. unat (snd c) \<le> length (fst c)"
    and lt: "length (bytesWritten calls) < 2 ^ 64" by simp_all
  note inv = writeBytesAll_appends [OF wa fresh(1) fit]
  let ?src = "bytesWritten calls"
  have ul: "unat (m_writeBufferLen written) = length ?src"
    using inv fresh lt by (simp add: unat_of_nat)
  have w0: "m_pReadHandle written = None" "m_filename written = filename"
    "m_fixedLastMod written = m_fixedLastModIO p" "buffered written = ?src"
    "unallocated_is_empty written"
    using inv fresh by simp_all
  {
    assume e: "bytesWritten calls = []"
    then have "m_writeBufferLen written = 0" using inv fresh by simp
    then show "close written za = (True, written, za)"
      using w0 by (simp add: close_def)
  }
  have w1: "m_writeBufferLen written \<noteq> 0 \<and> m_writeBuffer written = Some ?src
            \<and> take (unat (m_writeBufferLen written)) ?src = ?src"
    if "bytesWritten calls \<noteq> []"
  proof -
    have n0: "m_writeBufferLen written \<noteq> 0"
    proof
      assume "m_writeBufferLen written = 0"
      then have "unat (m_writeBufferLen written) = 0" by simp
      with ul that show False by simp
    qed
    then have "m_writeBuffer written \<noteq> None"
      using w0(5) by (auto simp: unallocated_is_empty_def)
    then have "m_writeBuffer written = Some ?src"
      using w0(4) by (auto simp: buffered_def)
    then show ?thesis using n0 ul by simp
  qed
  have cst: "c_str (c_str filename) = c_str filename" by (rule c_str_idem)
  {
    assume g: "bytesWritten calls \<noteq> []
                \<and> \<not> za_rdonly za \<and> \<not> za_nomem za \<and> za_name_ok za (c_str filename)"
    then have wr: "\<not> za_rdonly za" and nm: "za_name_ok za (c_str filename)"
      and ne: "bytesWritten calls \<noteq> []" by simp_all
    note add = zip_file_add_result [OF wr nm cst, of ?src]
    let ?r = "fst (zip_file_add za (c_str filename) ?src)"
    let ?za1 = "snd (zip_file_add za (c_str filename) ?src)"
    have cl: "close written za =
          (True, written\<lparr>m_writeBuffer := None, m_writeBufferLen := 0, m_writeBufferCapacity := 0,
                          m_filename := []\<rparr>,
           if m_fixedLastModIO p then zip_file_set_dostime ?za1 (nat ?r) 0x6020 0x21 else ?za1)"
      using g w0 w1 [OF ne] assms add
      by (simp add: close_def zip_source_buffer_def word_gt_0 split_beta Let_def)
    show "fst (close written za)" by (simp add: cl)
    show "0 \<le> zip_name_locate (snd (snd (close written za))) (c_str filename)"
      using add by (simp add: cl set_dostime_preserves)
    show "zip_fopen_index (snd (snd (close written za)))
                      (nat (zip_name_locate (snd (snd (close written za))) (c_str filename)))
                    = Some \<lparr>zf_data = bytesWritten calls, zf_corrupt = False, zf_error = False\<rparr>"
      using add by (simp add: cl set_dostime_preserves)
    {
      assume ex: "0 \<le> zip_name_locate za (c_str filename)"
      note add2 = zip_file_add_existing [OF ex wr nm, of ?src]
        zip_file_add_others [OF wr nm, of ?src, THEN conjunct1, rule_format, OF ex]
      show "length (za_entries (snd (snd (close written za)))) = length (za_entries za)"
        using add2 by (simp add: cl set_dostime_length)
      show "zip_name_locate (snd (snd (close written za))) (c_str filename) = zip_name_locate za (c_str filename)"
        using add add2 by (simp add: cl set_dostime_preserves)
      show "(za_entries (snd (snd (close written za))))
                         [nat (zip_name_locate za (c_str filename)) :=
                            za_entries za ! nat (zip_name_locate za (c_str filename))]
                        = za_entries za"
        using add2 by (simp add: cl set_dostime_others)
    }
    {
      assume nx: "zip_name_locate za (c_str filename) < 0"
      note add3 = zip_file_add_others [OF wr nm, of ?src, THEN conjunct2, rule_format, OF nx]
      show "length (za_entries (snd (snd (close written za)))) = Suc (length (za_entries za))"
        using add3 by (simp add: cl set_dostime_length)
      show "zip_name_locate (snd (snd (close written za))) (c_str filename) = int (length (za_entries za))"
        using add add3 by (simp add: cl set_dostime_preserves)
      show "take (length (za_entries za)) (za_entries (snd (snd (close written za)))) = za_entries za"
        using add3 set_dostime_others(2) [of "za_entries za" "length (za_entries za)" ?za1]
        by (simp add: cl)
    }
  }
  {
    assume g: "bytesWritten calls \<noteq> []
                \<and> (za_rdonly za \<or> za_nomem za \<or> \<not> za_name_ok za (c_str filename))"
    then have ne: "bytesWritten calls \<noteq> []" by simp
    show "\<not> fst (close written za)"
      using g w0 w1 [OF ne] assms
      by (auto simp: close_def zip_source_buffer_def zip_file_add_def word_gt_0 split_beta Let_def)
    show "snd (snd (close written za)) = za"
      using g w0 w1 [OF ne] assms
      by (auto simp: close_def zip_source_buffer_def zip_file_add_def word_gt_0 split_beta Let_def)
  }
qed

text \<open>
  Counterexample to C6 as stated: for the empty file name \<open>openForWriting\<close> returns
  \<open>nullptr\<close>, so no stream is returned. On the archive that holds \<open>a.txt\<close> with the
  byte 7, a stream opened for \<open>a.txt\<close> and closed with nothing written returns true and
  the entry still holds 7; and on the same archive opened read-only, the stream is returned
  and takes two bytes, but its close returns false and the entry still holds 7.
\<close>

theorem openBinaryStream_write_counterexample:
  "fst (openBinaryStream empty_writable [] WRITE) = None
   \<and> fst (openBinaryStream one_file ''a.txt'' WRITE) = Some ((new_stream WRITE)\<lparr>m_filename := ''a.txt''\<rparr>)
   \<and> fst (close ((new_stream WRITE)\<lparr>m_filename := ''a.txt''\<rparr>) (m_zipArchive one_file))
   \<and> zip_fopen_index (snd (snd (close ((new_stream WRITE)\<lparr>m_filename := ''a.txt''\<rparr>) (m_zipArchive one_file)))) 0
       = Some \<lparr>zf_data = [7], zf_corrupt = False, zf_error = False\<rparr>
   \<and> fst (openBinaryStream one_file_rdonly ''a.txt'' WRITE) = Some ((new_stream WRITE)\<lparr>m_filename := ''a.txt''\<rparr>)
   \<and> writeBytes realloc_always ((new_stream WRITE)\<lparr>m_filename := ''a.txt''\<rparr>) [8, 9] 2
       = (Some 2, two_bytes_written)
   \<and> fst (close two_bytes_written
             (m_zipArchive one_file_rdonly)) = False
   \<and> zip_fopen_index
        (snd (snd (close two_bytes_written
             (m_zipArchive one_file_rdonly)))) 0
       = Some \<lparr>zf_data = [7], zf_corrupt = False, zf_error = False\<rparr>"
  by (simp add: one_file_rdonly_def two_bytes_written_def eval_defs Let_def)

text \<open>
  Witness for C6 as amended: \<open>a.txt\<close> is opened for writing on the archive that has it
  and on the empty archive, with the same stream; closed at once it changes nothing; with
  two bytes written in two calls the close replaces the content of entry 0 on the first
  archive, appends entry 0 on the empty one, and is refused on the read-only one.
\<close>

theorem openBinaryStream_write_witness:
  "''a.txt'' \<noteq> []
   \<and> fst (openBinaryStream one_file ''a.txt'' WRITE)
       = Some ((new_stream WRITE)\<lparr>m_filename := ''a.txt''\<rparr>)
   \<and> fst (openBinaryStream empty_writable ''a.txt'' WRITE) = fst (openBinaryStream one_file ''a.txt'' WRITE)
   \<and> close ((new_stream WRITE)\<lparr>m_filename := ''a.txt''\<rparr>) (m_zipArchive one_file)
       = (True, (new_stream WRITE)\<lparr>m_filename := ''a.txt''\<rparr>, m_zipArchive one_file)
   \<and> writeBytesAll realloc_always ((new_stream WRITE)\<lparr>m_filename := ''a.txt''\<rparr>) [([8], 1), ([9, 0], 1)]
       = Some two_bytes_written
   \<and> bytesWritten [([8], 1), ([9, 0], 1)] = [8, 9]
   \<and> fst (close two_bytes_written (m_zipArchive one_file))
   \<and> zip_fopen_index (snd (snd (close two_bytes_written (m_zipArchive one_file)))) 0
       = Some \<lparr>zf_data = [8, 9], zf_corrupt = False, zf_error = False\<rparr>
   \<and> length (za_entries (snd (snd (close two_bytes_written (m_zipArchive one_file))))) = 1
   \<and> zip_name_locate (snd (snd (close two_bytes_written (m_zipArchive empty_writable)))) ''a.txt'' = 0
   \<and> length (za_entries (snd (snd (close two_bytes_written (m_zipArchive empty_writable))))) = 1
   \<and> zip_fopen_index (snd (snd (close two_bytes_written (m_zipArchive empty_writable)))) 0
       = Some \<lparr>zf_data = [8, 9], zf_corrupt = False, zf_error = False\<rparr>
   \<and> \<not> fst (close two_bytes_written (m_zipArchive one_file_rdonly))
   \<and> snd (snd (close two_bytes_written (m_zipArchive one_file_rdonly))) = m_zipArchive one_file_rdonly"
proof -
  have ne: "''a.txt'' \<noteq> []" by simp
  let ?ws = "(new_stream WRITE)\<lparr>m_filename := ''a.txt''\<rparr>"
  let ?wr = "two_bytes_written"
  let ?calls = "[([8], 1), ([9, 0], 1)] :: (byte list \<times> size_t) list"
  have o: "fst (openBinaryStream one_file ''a.txt'' WRITE) = Some ?ws"
    by (simp add: openBinaryStream_def openForWriting_def one_file_def newWzMapZipIO_def new_stream_def)
  have e: "one_file\<lparr>m_zipArchive := m_zipArchive empty_writable\<rparr> = empty_writable"
    by (simp add: one_file_def empty_writable_def newWzMapZipIO_def)
  have w: "writeBytesAll realloc_always ?ws ?calls = Some ?wr"
    by (simp add: two_bytes_written_def writeBytes_def new_stream_def realloc_always_def Let_def)
  have b: "bytesWritten ?calls = [8, 9]"
    by (simp add: bytesWritten_def)
  have z: "zip_name_locate (m_zipArchive one_file) (c_str ''a.txt'') = 0"
    "\<not> za_rdonly (m_zipArchive one_file)" "\<not> za_nomem (m_zipArchive one_file)"
    "za_name_ok (m_zipArchive one_file) (c_str ''a.txt'')"
    "length (za_entries (m_zipArchive one_file)) = 1"
    by (simp_all add: eval_defs)
  have y: "zip_name_locate (m_zipArchive empty_writable) (c_str ''a.txt'') = -1"
    "\<not> za_rdonly (m_zipArchive empty_writable)" "\<not> za_nomem (m_zipArchive empty_writable)"
    "za_name_ok (m_zipArchive empty_writable) (c_str ''a.txt'')"
    "length (za_entries (m_zipArchive empty_writable)) = 0"
    by (simp_all add: eval_defs)
  have x: "za_rdonly (m_zipArchive one_file_rdonly)"
    by (simp add: one_file_rdonly_def eval_defs)
  have l: "c_str ''a.txt'' = ''a.txt''"
    by (simp add: c_str_def)
  note t = openBinaryStream_write [OF ne, where p = one_file and ws = ?ws and realloc_ok = realloc_always
      and calls = ?calls and written = ?wr]
  note t3 = t [THEN conjunct2, THEN conjunct2, THEN conjunct1, THEN mp, OF o]
  have pre: "fst (openBinaryStream one_file ''a.txt'' WRITE) = Some ?ws
             \<and> writeBytesAll realloc_always ?ws ?calls = Some ?wr
             \<and> (\<forall>c \<in> set ?calls. unat (snd c) \<le> length (fst c))
             \<and> length (bytesWritten ?calls) < 2 ^ 64"
    using o w b by simp
  have g1: "bytesWritten ?calls \<noteq> [] \<and> \<not> za_rdonly (m_zipArchive one_file) \<and> \<not> za_nomem (m_zipArchive one_file)
            \<and> za_name_ok (m_zipArchive one_file) (c_str ''a.txt'')"
    using z b by simp
  have g2: "bytesWritten ?calls \<noteq> [] \<and> \<not> za_rdonly (m_zipArchive empty_writable) \<and> \<not> za_nomem (m_zipArchive empty_writable)
            \<and> za_name_ok (m_zipArchive empty_writable) (c_str ''a.txt'')"
    using y b by simp
  have g3: "bytesWritten ?calls \<noteq> [] \<and> (za_rdonly (m_zipArchive one_file_rdonly) \<or> za_nomem (m_zipArchive one_file_rdonly)
            \<or> \<not> za_name_ok (m_zipArchive one_file_rdonly) (c_str ''a.txt''))"
    using x b by simp
  note a1 = t [where za = "m_zipArchive one_file", THEN conjunct2, THEN conjunct2, THEN conjunct2, THEN mp, OF pre,
               THEN conjunct2, THEN conjunct1, THEN mp, OF g1]
  note a2 = t [where za = "m_zipArchive empty_writable", THEN conjunct2, THEN conjunct2, THEN conjunct2, THEN mp, OF pre,
               THEN conjunct2, THEN conjunct1, THEN mp, OF g2]
  note a3 = t [where za = "m_zipArchive one_file_rdonly", THEN conjunct2, THEN conjunct2, THEN conjunct2, THEN mp, OF pre,
               THEN conjunct2, THEN conjunct2, THEN mp, OF g3]
  have c1: "close ?ws (m_zipArchive one_file) = (True, ?ws, m_zipArchive one_file)"
    by (rule t3)
  have c2: "fst (close ?wr (m_zipArchive one_file))"
    using a1 by blast
  have ex: "0 \<le> zip_name_locate (m_zipArchive one_file) (c_str ''a.txt'')"
    using z by simp
  note a1x = a1 [THEN conjunct2, THEN conjunct2, THEN conjunct2, THEN conjunct1, THEN mp, OF ex]
  have c4: "length (za_entries (snd (snd (close ?wr (m_zipArchive one_file))))) = 1"
    using a1x z by simp
  have c5: "zip_name_locate (snd (snd (close ?wr (m_zipArchive one_file)))) (c_str ''a.txt'') = 0"
    using a1x z by simp
  have c3: "zip_fopen_index (snd (snd (close ?wr (m_zipArchive one_file)))) 0
       = Some \<lparr>zf_data = [8, 9], zf_corrupt = False, zf_error = False\<rparr>"
    using a1 [THEN conjunct2, THEN conjunct2, THEN conjunct1] c5 b by simp
  have d1: "fst (openBinaryStream empty_writable ''a.txt'' WRITE) = fst (openBinaryStream one_file ''a.txt'' WRITE)"
    using t [where za = "m_zipArchive empty_writable", THEN conjunct2, THEN conjunct1] e by simp
  have nx: "zip_name_locate (m_zipArchive empty_writable) (c_str ''a.txt'') < 0"
    using y by simp
  note a2x = a2 [THEN conjunct2, THEN conjunct2, THEN conjunct2, THEN conjunct2, THEN mp, OF nx]
  have d2: "zip_name_locate (snd (snd (close ?wr (m_zipArchive empty_writable)))) ''a.txt'' = 0"
    using a2x y l by simp
  have d3: "length (za_entries (snd (snd (close ?wr (m_zipArchive empty_writable))))) = 1"
    using a2x y by simp
  have d4: "zip_fopen_index (snd (snd (close ?wr (m_zipArchive empty_writable)))) 0
       = Some \<lparr>zf_data = [8, 9], zf_corrupt = False, zf_error = False\<rparr>"
    using a2 [THEN conjunct2, THEN conjunct2, THEN conjunct1] d2 l b by simp
  have r: "\<not> fst (close ?wr (m_zipArchive one_file_rdonly))"
    "snd (snd (close ?wr (m_zipArchive one_file_rdonly))) = m_zipArchive one_file_rdonly"
    using a3 by blast+
  show ?thesis
    using ne o w b c1 c2 c3 c4 d1 d2 d3 d4 r by simp
qed

section \<open>The sanity check on read\<close>

text \<open>
  C2. When \<open>loadFullFile\<close> locates the name, the stat succeeds and states a size that is
  strictly above the effective cap (\<open>maxFileSize\<close> when it is not zero, else 104857600),
  the result is \<open>FAILURE_EXCEEDS_MAXFILESIZE\<close> and \<open>fileData\<close> is what it was.
\<close>

theorem loadFullFile_exceeds_cap:
  assumes "0 \<le> fst (wz_zip_name_locate p (c_str filename))"
    and "zip_stat_index (m_zipArchive p) (nat (fst (wz_zip_name_locate p (c_str filename)))) = Some st"
    and "st_valid st AND ZIP_STAT_SIZE \<noteq> 0"
    and "(if maxFileSize \<noteq> 0 then ucast maxFileSize else 104857600) < st_size st"
  shows "loadFullFile p filename fileData maxFileSize appendNullCharacter
           = (FAILURE_EXCEEDS_MAXFILESIZE, fileData, snd (wz_zip_name_locate p (c_str filename)))"
proof -
  have "m_zipArchive (snd (wz_zip_name_locate p (c_str filename))) = m_zipArchive p"
    by (rule wz_zip_name_locate_archive)
  moreover have "wzMapZipIOSanityCheckStat st
          (if maxFileSize \<noteq> 0 then ucast maxFileSize else WzMapZipDefaultEmbeddedFileMaxFileSize)
        = SC_FAILURE_EXCEEDS_MAXFILESIZE"
    using assms(3,4)
    by (auto simp: wzMapZipIOSanityCheckStat_def WzMapZipDefaultEmbeddedFileMaxFileSize_def
             split: if_splits)
  ultimately show ?thesis
    using assms(1-3)
    by (simp add: loadFullFile_def split_beta)
qed

text \<open>Witness for C2: an entry that states 104857601 bytes, loaded under the default cap.\<close>

theorem loadFullFile_exceeds_cap_witness:
  "fst (wz_zip_name_locate oversized (c_str ''big.bin'')) = 0
   \<and> zip_stat_index (m_zipArchive oversized) 0
       = Some \<lparr>st_valid = ZIP_STAT_SIZE OR ZIP_STAT_COMP_METHOD, st_size = 104857601,
               st_comp_method = ZIP_CM_STORE\<rparr>
   \<and> fst (loadFullFile oversized ''big.bin'' [1, 2] 0 False) = FAILURE_EXCEEDS_MAXFILESIZE
   \<and> fst (snd (loadFullFile oversized ''big.bin'' [1, 2] 0 False)) = [1, 2]"
proof -
  let ?st = "\<lparr>st_valid = ZIP_STAT_SIZE OR ZIP_STAT_COMP_METHOD, st_size = 104857601,
               st_comp_method = ZIP_CM_STORE\<rparr>"
  have l: "fst (wz_zip_name_locate oversized (c_str ''big.bin'')) = 0"
    by (simp add: eval_defs Let_def)
  have l0: "0 \<le> fst (wz_zip_name_locate oversized (c_str ''big.bin''))"
    by (simp add: l)
  have s: "zip_stat_index (m_zipArchive oversized) (nat (fst (wz_zip_name_locate oversized (c_str ''big.bin'')))) = Some ?st"
    unfolding l by (simp add: eval_defs)
  have v: "st_valid ?st AND ZIP_STAT_SIZE \<noteq> 0"
    by (simp add: ZIP_STAT_SIZE_def ZIP_STAT_COMP_METHOD_def)
  have c: "(if (0 :: 32 word) \<noteq> 0 then ucast (0 :: 32 word) else 104857600) < st_size ?st"
    by simp
  from loadFullFile_exceeds_cap [OF l0 s v c, of "[1, 2]" False] l s
  show ?thesis by simp
qed

text \<open>
  C9, as amended. When the located entry's stat reports a compression method that is neither
  storage nor deflate, \<open>openBinaryStream\<close> in read mode returns no stream, and
  \<open>loadFullFile\<close> leaves \<open>fileData\<close> as it was and returns \<open>FAILURE_OPEN\<close>, unless the
  entry also states a size above the effective cap: the size is checked first, and the
  result is then \<open>FAILURE_EXCEEDS_MAXFILESIZE\<close>.
\<close>

theorem unsupported_method_rejected:
  assumes "0 \<le> fst (wz_zip_name_locate p (c_str filename))"
    and "zip_stat_index (m_zipArchive p) (nat (fst (wz_zip_name_locate p (c_str filename)))) = Some st"
    and "st_valid st AND ZIP_STAT_COMP_METHOD \<noteq> 0"
    and "st_comp_method st \<noteq> ZIP_CM_STORE" and "st_comp_method st \<noteq> ZIP_CM_DEFLATE"
  shows "openBinaryStream p filename READ = (None, snd (wz_zip_name_locate p (c_str filename)))
       \<and> loadFullFile p filename fileData maxFileSize appendNullCharacter
           = (if st_valid st AND ZIP_STAT_SIZE \<noteq> 0
                 \<and> (if maxFileSize \<noteq> 0 then ucast maxFileSize
                     else WzMapZipDefaultEmbeddedFileMaxFileSize) < st_size st
              then FAILURE_EXCEEDS_MAXFILESIZE else FAILURE_OPEN,
              fileData, snd (wz_zip_name_locate p (c_str filename)))"
proof -
  have "m_zipArchive (snd (wz_zip_name_locate p (c_str filename))) = m_zipArchive p"
    by (rule wz_zip_name_locate_archive)
  then show ?thesis
    using assms
    by (simp add: openBinaryStream_def loadFullFile_def wzMapZipIOSanityCheckStat_def split_beta)
qed

text \<open>
  Counterexample to C9 as stated: an entry compressed with method 12 that states
  200000000 bytes. \<open>loadFullFile\<close> under the default cap answers
  \<open>FAILURE_EXCEEDS_MAXFILESIZE\<close>, not \<open>FAILURE_OPEN\<close>.
\<close>

theorem unsupported_method_oversized_counterexample:
  "fst (wz_zip_name_locate bzip2_oversized (c_str ''big.bz2'')) = 0
   \<and> zip_stat_index (m_zipArchive bzip2_oversized) 0
       = Some \<lparr>st_valid = ZIP_STAT_SIZE OR ZIP_STAT_COMP_METHOD, st_size = 200000000,
               st_comp_method = 12\<rparr>
   \<and> (ZIP_STAT_SIZE OR ZIP_STAT_COMP_METHOD) AND ZIP_STAT_COMP_METHOD \<noteq> 0
   \<and> (12 :: 16 word) \<noteq> ZIP_CM_STORE \<and> (12 :: 16 word) \<noteq> ZIP_CM_DEFLATE
   \<and> fst (loadFullFile bzip2_oversized ''big.bz2'' [] 0 False) = FAILURE_EXCEEDS_MAXFILESIZE
   \<and> fst (loadFullFile bzip2_oversized ''big.bz2'' [] 0 False) \<noteq> FAILURE_OPEN"
  by (simp add: eval_defs Let_def)

text \<open>Witness for C9 as amended: an entry of ten bytes compressed with method 12.\<close>

theorem unsupported_method_rejected_witness:
  "fst (wz_zip_name_locate bzip2_small (c_str ''x.bz2'')) = 0
   \<and> zip_stat_index (m_zipArchive bzip2_small) 0
       = Some \<lparr>st_valid = ZIP_STAT_SIZE OR ZIP_STAT_COMP_METHOD, st_size = 10, st_comp_method = 12\<rparr>
   \<and> fst (openBinaryStream bzip2_small ''x.bz2'' READ) = None
   \<and> fst (loadFullFile bzip2_small ''x.bz2'' [5] 0 True) = FAILURE_OPEN
   \<and> fst (snd (loadFullFile bzip2_small ''x.bz2'' [5] 0 True)) = [5]"
proof -
  let ?st = "\<lparr>st_valid = ZIP_STAT_SIZE OR ZIP_STAT_COMP_METHOD, st_size = 10, st_comp_method = 12\<rparr>"
  have l: "fst (wz_zip_name_locate bzip2_small (c_str ''x.bz2'')) = 0"
    by (simp add: eval_defs Let_def)
  have l0: "0 \<le> fst (wz_zip_name_locate bzip2_small (c_str ''x.bz2''))"
    by (simp add: l)
  have s: "zip_stat_index (m_zipArchive bzip2_small) (nat (fst (wz_zip_name_locate bzip2_small (c_str ''x.bz2'')))) = Some ?st"
    unfolding l by (simp add: eval_defs)
  have v: "st_valid ?st AND ZIP_STAT_COMP_METHOD \<noteq> 0"
    by (simp add: ZIP_STAT_SIZE_def ZIP_STAT_COMP_METHOD_def)
  have m: "st_comp_method ?st \<noteq> ZIP_CM_STORE" "st_comp_method ?st \<noteq> ZIP_CM_DEFLATE"
    by (simp_all add: ZIP_CM_STORE_def ZIP_CM_DEFLATE_def)
  from unsupported_method_rejected [OF l0 s v m, of "[5]" 0 True] l s
  show ?thesis by (simp add: WzMapZipDefaultEmbeddedFileMaxFileSize_def)
qed

section \<open>Writing a file and reading it back\<close>

lemma newSize_unat:
  "unat (ucast (w :: 32 word) + (if a then 1 else 0) :: 64 word) = unat w + (if a then 1 else 0)"
proof -
  have "unat w < 2 ^ 32" using unsigned_less [of w] by simp
  then have "unat w + (if a then 1 else 0) < 2 ^ 64" by simp
  then show ?thesis
    by (cases a) (simp_all add: unat_word_ariths unat_ucast_32_64)
qed

lemma drop_replicate_Suc: "drop n (x # replicate n x) = [x]"
  by (induction n) auto

lemma fill_null: "length d = n \<Longrightarrow> (d @ drop n (x # replicate n x))[n := x] = d @ [x]"
  by (auto simp: drop_replicate_Suc)

text \<open>What a whole-file write of at least one byte leaves in the archive, when the
  backend accepts the entry.\<close>

lemma writeFullFile_archive:
  assumes ok: "writeFullFile realloc_ok p filename ppFileData fileSize = (True, p')"
    and wr: "\<not> za_rdonly (m_zipArchive p)" and mem: "\<not> za_nomem (m_zipArchive p)"
    and nm: "za_name_ok (m_zipArchive p) (c_str filename)"
    and pos: "0 < fileSize" and len: "length ppFileData = unat fileSize"
  shows "\<exists>r. 0 \<le> r \<and> zip_name_locate (m_zipArchive p') (c_str filename) = r
           \<and> zip_stat_index (m_zipArchive p') (nat r) = Some (buffer_stat ppFileData)
           \<and> zip_fopen_index (m_zipArchive p') (nat r)
               = Some \<lparr>zf_data = ppFileData, zf_corrupt = False, zf_error = False\<rparr>"
proof -
  have fn: "filename \<noteq> []"
    using ok by (auto simp: writeFullFile_def openForWriting_def)
  have u2: "unat (ucast fileSize :: 64 word) = unat fileSize"
    by (rule unat_ucast_32_64)
  have u1: "(ucast fileSize :: 64 word) \<noteq> 0"
  proof
    assume "(ucast fileSize :: 64 word) = 0"
    then have "unat (ucast fileSize :: 64 word) = 0" by simp
    with u2 have "fileSize = 0" by (simp add: unat_eq_0)
    with pos show False by simp
  qed
  have cst: "c_str (c_str filename) = c_str filename" by (rule c_str_idem)
  note add = zip_file_add_result [OF wr nm cst, of ppFileData]
  show ?thesis
    using ok fn u1 u2 len wr mem add
    by (auto simp: writeFullFile_def openForWriting_def new_stream_def writeBytes_def close_def
        zip_source_buffer_def Let_def set_dostime_preserves word_gt_0
        split: prod.splits option.splits if_splits)
qed

text \<open>Loading a name whose entry is a buffer of the stated size, within the cap.\<close>

lemma loadFullFile_reads_buffer:
  fixes fileSize :: "32 word"
  assumes loc: "zip_name_locate (m_zipArchive p) (c_str filename) = r" and r0: "0 \<le> r"
    and st: "zip_stat_index (m_zipArchive p) (nat r) = Some (buffer_stat d)"
    and fo: "zip_fopen_index (m_zipArchive p) (nat r)
               = Some \<lparr>zf_data = d, zf_corrupt = False, zf_error = False\<rparr>"
    and len: "length d = unat fileSize" and pos: "0 < fileSize"
    and cap: "\<not> (if maxFileSize \<noteq> 0 then ucast maxFileSize
                 else WzMapZipDefaultEmbeddedFileMaxFileSize) < (ucast fileSize :: 64 word)"
  shows "loadFullFile p filename fileData maxFileSize appendNullCharacter
           = (SUCCESS, d @ (if appendNullCharacter then [0] else []),
              snd (wz_zip_name_locate p (c_str filename)))"
proof -
  obtain p1 where p1: "wz_zip_name_locate p (c_str filename) = (r, p1)"
    using wz_zip_name_locate_literal [of p "c_str filename"] loc r0
    by (cases "wz_zip_name_locate p (c_str filename)") auto
  have za: "m_zipArchive p1 = m_zipArchive p"
    using wz_zip_name_locate_archive [of p "c_str filename"] p1 by simp
  have sz: "st_size (buffer_stat d) = (ucast fileSize :: 64 word)"
    by (simp add: buffer_stat_def len)
  let ?n = "(ucast fileSize + (if appendNullCharacter then 1 else 0)) :: 64 word"
  have un: "unat ?n = unat fileSize + (if appendNullCharacter then 1 else 0)"
    by (rule newSize_unat)
  have fpos: "0 < unat fileSize" using pos by (simp add: word_less_nat_alt)
  have b32: "unat fileSize < 2 ^ 32" using unsigned_less [of fileSize] by simp
  have n0: "?n \<noteq> 0"
  proof
    assume "?n = 0"
    then have "unat ?n = 0" by simp
    with un fpos show False by simp
  qed
  have nmax: "\<not> ?n > ZIP_INT64_MAX"
    using b32 unfolding word_less_nat_alt un by (simp add: ZIP_INT64_MAX_def)
  have dne: "d \<noteq> []" using len fpos by auto
  have fr: "zip_fread \<lparr>zf_data = d, zf_corrupt = False, zf_error = False\<rparr> ?n
              = (int (length d), d, \<lparr>zf_data = [], zf_corrupt = False, zf_error = False\<rparr>)"
    using n0 nmax dne un len by (simp add: zip_fread_def)
  have rb: "readBytes ((new_stream READ)\<lparr>m_pReadHandle :=
                 Some \<lparr>zf_data = d, zf_corrupt = False, zf_error = False\<rparr>\<rparr>) ?n
              = (Some (ucast fileSize), d,
                 (new_stream READ)\<lparr>m_pReadHandle :=
                    Some \<lparr>zf_data = [], zf_corrupt = False, zf_error = False\<rparr>\<rparr>)"
    by (simp add: readBytes_def new_stream_def fr len)
  have sane: "wzMapZipIOSanityCheckStat (buffer_stat d)
                (if maxFileSize \<noteq> 0 then ucast maxFileSize
                 else WzMapZipDefaultEmbeddedFileMaxFileSize) = PASSED"
    using cap sz by (simp add: wzMapZipIOSanityCheckStat_def) (simp add: buffer_stat_def)
  have fill: "d @ drop (length d) (replicate (unat ?n) (0 :: byte))
                = d @ (if appendNullCharacter then [0] else [])"
    using un len by simp
  show ?thesis
  proof (cases appendNullCharacter)
    case True
    show ?thesis
      unfolding loadFullFile_def p1
      using r0 st fo za buffer_stat_size_valid [of d] sane sz rb fill un len True
      by (simp add: openForReading_def Let_def fill_null)
  next
    case False
    show ?thesis
      unfolding loadFullFile_def p1
      using r0 st fo za buffer_stat_size_valid [of d] sane sz rb fill un len False
      by (simp add: openForReading_def Let_def)
  qed
qed

text \<open>
  C1, as amended. On a writable archive whose backend accepts the entry (it can allocate the
  source and takes the name), for data of \<open>fileSize\<close> bytes with \<open>0 < fileSize\<close> and
  \<open>fileSize\<close> within the effective cap of the load: if \<open>writeFullFile\<close> returns true,
  then \<open>loadFullFile\<close> of the same name returns \<open>SUCCESS\<close> and \<open>fileData\<close> holds exactly
  those bytes (followed by one NUL when \<open>appendNullCharacter\<close> is set).
\<close>

theorem writeFullFile_loadFullFile_roundtrip:
  fixes fileSize :: "32 word"
  assumes "\<not> za_rdonly (m_zipArchive p)" and "\<not> za_nomem (m_zipArchive p)"
    and "za_name_ok (m_zipArchive p) (c_str filename)"
    and "0 < fileSize" and "length ppFileData = unat fileSize"
    and "ucast fileSize \<le> (if maxFileSize \<noteq> 0 then ucast maxFileSize
                            else WzMapZipDefaultEmbeddedFileMaxFileSize)"
    and "fst (writeFullFile realloc_ok p filename ppFileData fileSize)"
  shows "fst (loadFullFile (snd (writeFullFile realloc_ok p filename ppFileData fileSize))
                filename fileData maxFileSize appendNullCharacter) = SUCCESS
       \<and> fst (snd (loadFullFile (snd (writeFullFile realloc_ok p filename ppFileData fileSize))
                filename fileData maxFileSize appendNullCharacter))
           = ppFileData @ (if appendNullCharacter then [0] else [])"
proof -
  define p' where "p' = snd (writeFullFile realloc_ok p filename ppFileData fileSize)"
  have ok: "writeFullFile realloc_ok p filename ppFileData fileSize = (True, p')"
    using assms(7) by (simp add: p'_def prod_eq_iff)
  from writeFullFile_archive [OF ok assms(1-5)]
  obtain r where r: "0 \<le> r" "zip_name_locate (m_zipArchive p') (c_str filename) = r"
     "zip_stat_index (m_zipArchive p') (nat r) = Some (buffer_stat ppFileData)"
     "zip_fopen_index (m_zipArchive p') (nat r)
               = Some \<lparr>zf_data = ppFileData, zf_corrupt = False, zf_error = False\<rparr>"
    by blast
  have cap: "\<not> (if maxFileSize \<noteq> 0 then ucast maxFileSize
                 else WzMapZipDefaultEmbeddedFileMaxFileSize) < (ucast fileSize :: 64 word)"
    using assms(6) by (simp add: not_less)
  show ?thesis
    unfolding p'_def [symmetric]
    using loadFullFile_reads_buffer [OF r(2) r(1) r(3) r(4) assms(5) assms(4) cap,
        of fileData appendNullCharacter]
    by simp
qed

text \<open>
  Counterexample to C1 as stated: writing zero bytes to \<open>a.txt\<close> on an empty writable
  archive returns true, but \<open>close\<close> adds an entry only when bytes were buffered, so the
  load that follows fails with \<open>FAILURE_OPEN\<close>. And three bytes written are refused by a
  load whose \<open>maxFileSize\<close> is 2.
\<close>

theorem roundtrip_empty_file_counterexample:
  "fst (writeFullFile realloc_always empty_writable ''a.txt'' [] 0)
   \<and> fst (loadFullFile (snd (writeFullFile realloc_always empty_writable ''a.txt'' [] 0))
            ''a.txt'' [] 0 False) = FAILURE_OPEN
   \<and> fst (writeFullFile realloc_always empty_writable ''a.txt'' [1, 2, 3] 3)
   \<and> fst (loadFullFile (snd (writeFullFile realloc_always empty_writable ''a.txt'' [1, 2, 3] 3))
            ''a.txt'' [] 2 False) = FAILURE_EXCEEDS_MAXFILESIZE"
  by (simp add: eval_defs Let_def)

text \<open>Witness for C1 as amended: three bytes written to \<open>a.txt\<close> and loaded with a
  trailing NUL.\<close>

theorem writeFullFile_loadFullFile_roundtrip_witness:
  "fst (writeFullFile realloc_always empty_writable ''a.txt'' [1, 2, 3] 3)
   \<and> fst (loadFullFile (snd (writeFullFile realloc_always empty_writable ''a.txt'' [1, 2, 3] 3))
            ''a.txt'' [] 0 True) = SUCCESS
   \<and> fst (snd (loadFullFile (snd (writeFullFile realloc_always empty_writable ''a.txt'' [1, 2, 3] 3))
            ''a.txt'' [] 0 True)) = [1, 2, 3, 0]"
proof -
  have w: "fst (writeFullFile realloc_always empty_writable ''a.txt'' [1, 2, 3] 3)"
    by (simp add: eval_defs Let_def)
  have h: "\<not> za_rdonly (m_zipArchive empty_writable)" "\<not> za_nomem (m_zipArchive empty_writable)"
    "za_name_ok (m_zipArchive empty_writable) (c_str ''a.txt'')"
    by (simp_all add: eval_defs)
  have c: "ucast (3 :: 32 word) \<le> (if (0 :: 32 word) \<noteq> 0 then ucast (0 :: 32 word)
                            else WzMapZipDefaultEmbeddedFileMaxFileSize)"
    by (simp add: WzMapZipDefaultEmbeddedFileMaxFileSize_def)
  show ?thesis
    using w writeFullFile_loadFullFile_roundtrip [OF h _ _ c w, of "[]" True]
    by simp
qed

section \<open>Name lookup and the separator workaround\<close>

lemma c_str_no_nul: "c \<in> set (c_str s) \<Longrightarrow> c \<noteq> CHR 0x00"
  unfolding c_str_def by (rule set_takeWhileD [THEN conjunct2])

lemma c_str_fixed: "(\<And>c. c \<in> set s \<Longrightarrow> c \<noteq> CHR 0x00) \<Longrightarrow> c_str s = s"
  unfolding c_str_def by (simp add: takeWhile_eq_all_conv)

lemma c_str_replace:
  "c_str (str_replace SLASH BACKSLASH (c_str s)) = str_replace SLASH BACKSLASH (c_str s)"
proof (rule c_str_fixed)
  fix c
  assume "c \<in> set (str_replace SLASH BACKSLASH (c_str s))"
  then obtain d where "d \<in> set (c_str s)" and "c = (if d = SLASH then BACKSLASH else d)"
    unfolding str_replace_def by auto
  then show "c \<noteq> CHR 0x00"
    using c_str_no_nul [of d s] by (cases "d = SLASH") simp_all
qed

text \<open>The loop of \<open>determineIfMalformedWindowsPathSeparatorWorkaround\<close> computes the
  classification by the first entry that is not passed over.\<close>

lemma first_decisive_Cons:
  "first_decisive_entry_quirky (e # es) =
     (if passed_over e then first_decisive_entry_quirky es else dos_with_backslash e)"
  by (simp add: first_decisive_entry_quirky_def)

lemma determineLoop_scan:
  "i \<le> length (za_entries za) \<Longrightarrow>
     determineLoop za [i..<length (za_entries za)] = first_decisive_entry_quirky (drop i (za_entries za))"
proof (induction "length (za_entries za) - i" arbitrary: i)
  case 0
  then show ?case by (simp add: first_decisive_entry_quirky_def)
next
  case (Suc k)
  then have il: "i < length (za_entries za)" by simp
  have u: "[i..<length (za_entries za)] = i # [Suc i..<length (za_entries za)]"
    using il by (rule upt_conv_Cons)
  have d: "drop i (za_entries za) = za_entries za ! i # drop (Suc i) (za_entries za)"
    using il by (simp add: Cons_nth_drop_Suc)
  have ih: "determineLoop za [Suc i..<length (za_entries za)]
              = first_decisive_entry_quirky (drop (Suc i) (za_entries za))"
    using Suc il by (intro Suc.hyps(1)) simp_all
  show ?case
    unfolding u d first_decisive_Cons
    using il ih
    by (auto simp: zip_get_name_def zip_file_get_external_attributes_def passed_over_def
        dos_with_backslash_def split: option.splits)
qed

lemma workaround_classification:
  "fst (malformed_windows_path_separators_workaround p) =
     (case m_foundMalformedWindowsPathSeparators p of
        Some v \<Rightarrow> v
      | None \<Rightarrow> first_decisive_entry_quirky (za_entries (m_zipArchive p)))"
  using determineLoop_scan [of 0 "m_zipArchive p"]
  by (simp add: malformed_windows_path_separators_workaround_def
      determineIfMalformedWindowsPathSeparatorWorkaround_def zip_get_num_entries_def Let_def
      split: option.splits)

lemma workaround_memoized:
  "snd (malformed_windows_path_separators_workaround p) =
     p\<lparr>m_foundMalformedWindowsPathSeparators :=
         Some (fst (malformed_windows_path_separators_workaround p))\<rparr>"
  by (simp add: malformed_windows_path_separators_workaround_def
      determineIfMalformedWindowsPathSeparatorWorkaround_def zip_get_num_entries_def Let_def
      split: option.splits)

lemma locate_from_stored:
  "0 \<le> locate_from es f i \<longleftrightarrow> (\<exists>e\<in>set es. map_option c_str (e_name e) = Some f)"
  by (induction es f i rule: locate_from.induct) auto

lemma str_replace_twice:
  "str_replace SLASH BACKSLASH (str_replace SLASH BACKSLASH s) = str_replace SLASH BACKSLASH s"
  by (simp add: str_replace_def)

lemma wz_zip_name_locate_eq:
  "wz_zip_name_locate p f =
     (if 0 \<le> zip_name_locate (m_zipArchive p) f
      then zip_name_locate (m_zipArchive p) f
      else if fst (malformed_windows_path_separators_workaround p)
      then zip_name_locate (m_zipArchive p) (str_replace SLASH BACKSLASH (c_str f))
      else zip_name_locate (m_zipArchive p) f,
      snd (malformed_windows_path_separators_workaround p))"
  by (simp add: wz_zip_name_locate_def wz_zip_name_locate_impl_def split_beta workaround_archive
      c_str_replace Let_def not_le)

text \<open>Loading an entry that the lookup resolved: a stat with a valid size, within the cap
  and of an accepted method, over content of that size.\<close>

lemma loadFullFile_at_index:
  assumes p1: "wz_zip_name_locate p (c_str filename) = (r, p1)" and r0: "0 \<le> r"
    and st: "zip_stat_index (m_zipArchive p) (nat r) = Some st"
    and valid: "st_valid st AND ZIP_STAT_SIZE \<noteq> 0"
    and size: "st_size st = of_nat (length d)" and bound: "length d < 2 ^ 32"
    and sane: "wzMapZipIOSanityCheckStat st
                (if maxFileSize \<noteq> 0 then ucast maxFileSize
                 else WzMapZipDefaultEmbeddedFileMaxFileSize) = PASSED"
    and fo: "zip_fopen_index (m_zipArchive p) (nat r)
               = Some \<lparr>zf_data = d, zf_corrupt = False, zf_error = False\<rparr>"
  shows "loadFullFile p filename fileData maxFileSize appendNullCharacter
           = (SUCCESS, d @ (if appendNullCharacter then [0] else []), p1)"
proof -
  have za: "m_zipArchive p1 = m_zipArchive p"
    using wz_zip_name_locate_archive [of p "c_str filename"] p1 by simp
  let ?n = "(of_nat (length d) + (if appendNullCharacter then 1 else 0)) :: 64 word"
  have b64: "length d < 2 ^ 64" "Suc (length d) < 2 ^ 64"
    using bound by simp_all
  have ul: "unat (of_nat (length d) :: 64 word) = length d"
    using b64 by (simp add: unat_of_nat)
  have un: "unat ?n = length d + (if appendNullCharacter then 1 else 0)"
    using b64 ul by (cases appendNullCharacter) (simp_all add: unat_word_ariths)
  have nmax: "\<not> ?n > ZIP_INT64_MAX"
    using bound unfolding word_less_nat_alt un by (simp add: ZIP_INT64_MAX_def)
  have n0: "?n = 0 \<longleftrightarrow> d = [] \<and> \<not> appendNullCharacter"
  proof -
    have "?n = 0 \<longleftrightarrow> unat ?n = 0" by (simp add: unat_eq_0)
    then show ?thesis unfolding un by auto
  qed
  have fr: "zip_fread \<lparr>zf_data = d, zf_corrupt = False, zf_error = False\<rparr> ?n
              = (int (length d), d, \<lparr>zf_data = [], zf_corrupt = False, zf_error = False\<rparr>)"
    using n0 nmax un by (auto simp: zip_fread_def)
  have rb: "readBytes ((new_stream READ)\<lparr>m_pReadHandle :=
                 Some \<lparr>zf_data = d, zf_corrupt = False, zf_error = False\<rparr>\<rparr>) ?n
              = (Some (of_nat (length d)), d,
                 (new_stream READ)\<lparr>m_pReadHandle :=
                    Some \<lparr>zf_data = [], zf_corrupt = False, zf_error = False\<rparr>\<rparr>)"
    by (simp add: readBytes_def new_stream_def fr)
  have fill: "d @ drop (length d) (replicate (unat ?n) (0 :: byte))
                = d @ (if appendNullCharacter then [0] else [])"
    using un by simp
  show ?thesis
  proof (cases appendNullCharacter)
    case True
    show ?thesis
      unfolding loadFullFile_def p1
      using r0 st fo za valid sane size rb fill un True
      by (simp add: openForReading_def Let_def fill_null)
  next
    case False
    show ?thesis
      unfolding loadFullFile_def p1
      using r0 st fo za valid sane size rb fill un False
      by (simp add: openForReading_def Let_def)
  qed
qed

text \<open>
  C8, as amended. The archive is classified once, at the provider's first lookup or
  enumeration, and the answer is kept: the classification is the first decisive entry's, as
  defined by \<open>first_decisive_entry_quirky\<close>. Every lookup by name (\<open>fileExists\<close>,
  \<open>openBinaryStream\<close> for reading, \<open>loadFullFile\<close>) goes through
  \<open>wz_zip_name_locate\<close>: the literal name is tried first, and the name with every forward
  slash replaced by a backslash is looked up exactly when the literal lookup failed and the
  archive is classified as malformed. The three operations depend on the name through the
  resolved index only: \<open>fileExists\<close> is true exactly when there is one; without one the
  read stream is null and the load fails with \<open>FAILURE_OPEN\<close>; with one the read stream is
  opened on that index and the load returns the content of that entry. So when the literal
  lookup fails on an archive classified as malformed, each operation does what it does for
  the name written with backslashes. In particular, on an archive classified as malformed
  that stores an entry literally as \<open>dir\file.txt\<close>, such as the archive whose only entry is
  that DOS-origin entry, \<open>fileExists("dir/file.txt")\<close> is true.
\<close>

theorem name_lookup_workaround:
  "fst (malformed_windows_path_separators_workaround p) =
     (case m_foundMalformedWindowsPathSeparators p of
        Some v \<Rightarrow> v
      | None \<Rightarrow> first_decisive_entry_quirky (za_entries (m_zipArchive p)))
   \<and> snd (wz_zip_name_locate p (c_str filename)) =
       p\<lparr>m_foundMalformedWindowsPathSeparators :=
           Some (fst (malformed_windows_path_separators_workaround p))\<rparr>
   \<and> fst (wz_zip_name_locate p (c_str filename)) =
     (if 0 \<le> zip_name_locate (m_zipArchive p) (c_str filename)
      then zip_name_locate (m_zipArchive p) (c_str filename)
      else if fst (malformed_windows_path_separators_workaround p)
      then zip_name_locate (m_zipArchive p) (str_replace SLASH BACKSLASH (c_str filename))
      else zip_name_locate (m_zipArchive p) (c_str filename))
   \<and> fileExists p filename =
       (0 \<le> fst (wz_zip_name_locate p (c_str filename)), snd (wz_zip_name_locate p (c_str filename)))
   \<and> (fst (wz_zip_name_locate p (c_str filename)) < 0 \<longrightarrow>
        openBinaryStream p filename READ = (None, snd (wz_zip_name_locate p (c_str filename)))
        \<and> loadFullFile p filename fileData maxFileSize appendNullCharacter
            = (FAILURE_OPEN, fileData, snd (wz_zip_name_locate p (c_str filename))))
   \<and> (0 \<le> fst (wz_zip_name_locate p (c_str filename)) \<longrightarrow>
        fst (openBinaryStream p filename READ) =
          (case zip_stat_index (m_zipArchive p) (nat (fst (wz_zip_name_locate p (c_str filename)))) of
             None \<Rightarrow> None
           | Some st \<Rightarrow>
              if wzMapZipIOSanityCheckStat st WzMapZipDefaultEmbeddedFileMaxFileSize \<noteq> PASSED then None
              else openForReading (nat (fst (wz_zip_name_locate p (c_str filename)))) (Some (m_zipArchive p))))
   \<and> (0 \<le> fst (wz_zip_name_locate p (c_str filename))
        \<and> zip_stat_index (m_zipArchive p) (nat (fst (wz_zip_name_locate p (c_str filename)))) = Some st
        \<and> st_valid st AND ZIP_STAT_SIZE \<noteq> 0 \<and> st_size st = of_nat (length d) \<and> length d < 2 ^ 32
        \<and> wzMapZipIOSanityCheckStat st
             (if maxFileSize \<noteq> 0 then ucast maxFileSize else WzMapZipDefaultEmbeddedFileMaxFileSize) = PASSED
        \<and> zip_fopen_index (m_zipArchive p) (nat (fst (wz_zip_name_locate p (c_str filename))))
             = Some \<lparr>zf_data = d, zf_corrupt = False, zf_error = False\<rparr>
        \<longrightarrow> loadFullFile p filename fileData maxFileSize appendNullCharacter
              = (SUCCESS, d @ (if appendNullCharacter then [0] else []),
                 snd (wz_zip_name_locate p (c_str filename))))
   \<and> (fst (wz_zip_name_locate p (c_str other)) = fst (wz_zip_name_locate p (c_str filename)) \<longrightarrow>
        fileExists p other = fileExists p filename
        \<and> openBinaryStream p other READ = openBinaryStream p filename READ
        \<and> loadFullFile p other fileData maxFileSize appendNullCharacter
            = loadFullFile p filename fileData maxFileSize appendNullCharacter)
   \<and> (zip_name_locate (m_zipArchive p) (c_str filename) < 0
        \<and> fst (malformed_windows_path_separators_workaround p) \<longrightarrow>
        fileExists p filename = fileExists p (str_replace SLASH BACKSLASH (c_str filename))
        \<and> openBinaryStream p filename READ
            = openBinaryStream p (str_replace SLASH BACKSLASH (c_str filename)) READ
        \<and> loadFullFile p filename fileData maxFileSize appendNullCharacter
            = loadFullFile p (str_replace SLASH BACKSLASH (c_str filename)) fileData maxFileSize
                appendNullCharacter)
   \<and> ((case m_foundMalformedWindowsPathSeparators p of
          Some v \<Rightarrow> v
        | None \<Rightarrow> first_decisive_entry_quirky (za_entries (m_zipArchive p)))
        \<and> (\<exists>e \<in> set (za_entries (m_zipArchive p)).
              map_option c_str (e_name e) = Some (''dir'' @ [BACKSLASH] @ ''file.txt''))
        \<longrightarrow> fst (fileExists p ''dir/file.txt''))
   \<and> fst (fileExists dos_backslash ''dir/file.txt'')"
proof -
  have za: "m_zipArchive (snd (wz_zip_name_locate p f)) = m_zipArchive p" for f
    by (rule wz_zip_name_locate_archive)
  note loc = wz_zip_name_locate_eq
  have sn: "snd (wz_zip_name_locate p f) = snd (malformed_windows_path_separators_workaround p)" for f
    by (simp add: loc)
  have same: "fileExists p f = fileExists p g
        \<and> openBinaryStream p f READ = openBinaryStream p g READ
        \<and> loadFullFile p f fileData maxFileSize appendNullCharacter
            = loadFullFile p g fileData maxFileSize appendNullCharacter"
    if "fst (wz_zip_name_locate p (c_str f)) = fst (wz_zip_name_locate p (c_str g))" for f g
  proof -
    have "wz_zip_name_locate p (c_str f) = wz_zip_name_locate p (c_str g)"
      using that sn [of "c_str f"] sn [of "c_str g"] by (simp add: prod_eq_iff)
    then show ?thesis
      by (simp add: fileExists_def openBinaryStream_def loadFullFile_def)
  qed
  have r: "str_replace SLASH BACKSLASH (c_str ''dir/file.txt'') = ''dir'' @ [BACKSLASH] @ ''file.txt''"
    "c_str ''dir/file.txt'' = ''dir/file.txt''"
    by (simp_all add: str_replace_def c_str_def)
  have retry: "fst (wz_zip_name_locate p (c_str filename))
                 = fst (wz_zip_name_locate p (c_str (str_replace SLASH BACKSLASH (c_str filename))))"
    if "zip_name_locate (m_zipArchive p) (c_str filename) < 0
        \<and> fst (malformed_windows_path_separators_workaround p)"
    using that by (simp add: loc c_str_replace c_str_idem str_replace_twice)
  show ?thesis
  proof (intro conjI impI)
    show "fst (malformed_windows_path_separators_workaround p) =
     (case m_foundMalformedWindowsPathSeparators p of
        Some v \<Rightarrow> v
      | None \<Rightarrow> first_decisive_entry_quirky (za_entries (m_zipArchive p)))"
      by (rule workaround_classification)
    show "snd (wz_zip_name_locate p (c_str filename)) =
       p\<lparr>m_foundMalformedWindowsPathSeparators :=
           Some (fst (malformed_windows_path_separators_workaround p))\<rparr>"
      unfolding sn by (rule workaround_memoized)
    show "fst (wz_zip_name_locate p (c_str filename)) =
     (if 0 \<le> zip_name_locate (m_zipArchive p) (c_str filename)
      then zip_name_locate (m_zipArchive p) (c_str filename)
      else if fst (malformed_windows_path_separators_workaround p)
      then zip_name_locate (m_zipArchive p) (str_replace SLASH BACKSLASH (c_str filename))
      else zip_name_locate (m_zipArchive p) (c_str filename))"
      by (simp add: loc c_str_idem)
    show "fileExists p filename =
       (0 \<le> fst (wz_zip_name_locate p (c_str filename)), snd (wz_zip_name_locate p (c_str filename)))"
      by (auto simp: fileExists_def split_beta)
    show "openBinaryStream p filename READ = (None, snd (wz_zip_name_locate p (c_str filename)))"
      if "fst (wz_zip_name_locate p (c_str filename)) < 0"
      using that by (simp add: openBinaryStream_def split_beta)
    show "loadFullFile p filename fileData maxFileSize appendNullCharacter
            = (FAILURE_OPEN, fileData, snd (wz_zip_name_locate p (c_str filename)))"
      if "fst (wz_zip_name_locate p (c_str filename)) < 0"
      using that by (simp add: loadFullFile_def split_beta)
    show "fst (openBinaryStream p filename READ) =
          (case zip_stat_index (m_zipArchive p) (nat (fst (wz_zip_name_locate p (c_str filename)))) of
             None \<Rightarrow> None
           | Some st \<Rightarrow>
              if wzMapZipIOSanityCheckStat st WzMapZipDefaultEmbeddedFileMaxFileSize \<noteq> PASSED then None
              else openForReading (nat (fst (wz_zip_name_locate p (c_str filename)))) (Some (m_zipArchive p)))"
      if "0 \<le> fst (wz_zip_name_locate p (c_str filename))"
      using that za [of "c_str filename"]
      by (simp add: openBinaryStream_def split_beta Let_def split: option.splits)
    show "loadFullFile p filename fileData maxFileSize appendNullCharacter
              = (SUCCESS, d @ (if appendNullCharacter then [0] else []),
                 snd (wz_zip_name_locate p (c_str filename)))"
      if h: "0 \<le> fst (wz_zip_name_locate p (c_str filename))
        \<and> zip_stat_index (m_zipArchive p) (nat (fst (wz_zip_name_locate p (c_str filename)))) = Some st
        \<and> st_valid st AND ZIP_STAT_SIZE \<noteq> 0 \<and> st_size st = of_nat (length d) \<and> length d < 2 ^ 32
        \<and> wzMapZipIOSanityCheckStat st
             (if maxFileSize \<noteq> 0 then ucast maxFileSize else WzMapZipDefaultEmbeddedFileMaxFileSize) = PASSED
        \<and> zip_fopen_index (m_zipArchive p) (nat (fst (wz_zip_name_locate p (c_str filename))))
             = Some \<lparr>zf_data = d, zf_corrupt = False, zf_error = False\<rparr>"
    proof -
      have pr: "wz_zip_name_locate p (c_str filename)
                  = (fst (wz_zip_name_locate p (c_str filename)), snd (wz_zip_name_locate p (c_str filename)))"
        by simp
      from h show ?thesis
        by (intro loadFullFile_at_index [OF pr]) blast+
    qed
    show "fileExists p other = fileExists p filename"
      if "fst (wz_zip_name_locate p (c_str other)) = fst (wz_zip_name_locate p (c_str filename))"
      using same [OF that] by blast
    show "openBinaryStream p other READ = openBinaryStream p filename READ"
      if "fst (wz_zip_name_locate p (c_str other)) = fst (wz_zip_name_locate p (c_str filename))"
      using same [OF that] by blast
    show "loadFullFile p other fileData maxFileSize appendNullCharacter
            = loadFullFile p filename fileData maxFileSize appendNullCharacter"
      if "fst (wz_zip_name_locate p (c_str other)) = fst (wz_zip_name_locate p (c_str filename))"
      using same [OF that] by blast
    show "fileExists p filename = fileExists p (str_replace SLASH BACKSLASH (c_str filename))"
      if "zip_name_locate (m_zipArchive p) (c_str filename) < 0
        \<and> fst (malformed_windows_path_separators_workaround p)"
      using same [OF retry [OF that]] by blast
    show "openBinaryStream p filename READ
            = openBinaryStream p (str_replace SLASH BACKSLASH (c_str filename)) READ"
      if "zip_name_locate (m_zipArchive p) (c_str filename) < 0
        \<and> fst (malformed_windows_path_separators_workaround p)"
      using same [OF retry [OF that]] by blast
    show "loadFullFile p filename fileData maxFileSize appendNullCharacter
            = loadFullFile p (str_replace SLASH BACKSLASH (c_str filename)) fileData maxFileSize
                appendNullCharacter"
      if "zip_name_locate (m_zipArchive p) (c_str filename) < 0
        \<and> fst (malformed_windows_path_separators_workaround p)"
      using same [OF retry [OF that]] by blast
    show "fst (fileExists p ''dir/file.txt'')"
      if h: "(case m_foundMalformedWindowsPathSeparators p of
          Some v \<Rightarrow> v
        | None \<Rightarrow> first_decisive_entry_quirky (za_entries (m_zipArchive p)))
        \<and> (\<exists>e \<in> set (za_entries (m_zipArchive p)).
              map_option c_str (e_name e) = Some (''dir'' @ [BACKSLASH] @ ''file.txt''))"
    proof -
      from h have w: "fst (malformed_windows_path_separators_workaround p)"
        by (simp add: workaround_classification)
      from h have s: "0 \<le> zip_name_locate (m_zipArchive p) (''dir'' @ [BACKSLASH] @ ''file.txt'')"
        unfolding zip_name_locate_def locate_from_stored by blast
      show ?thesis
        using w s r by (auto simp: fileExists_def split_beta loc simp del: append.simps)
    qed
    show "fst (fileExists dos_backslash ''dir/file.txt'')"
      by (simp add: dos_backslash_def eval_defs Let_def)
  qed
qed

text \<open>
  Counterexample to C8 as stated: an archive that stores \<open>dir\file.txt\<close> with DOS origin
  behind an entry of Unix origin is not classified as malformed, and
  \<open>fileExists("dir/file.txt")\<close> is false, while the name with the backslash is found. The
  same holds when the first entry is of DOS origin with a forward slash in its name.
\<close>

theorem fileExists_dos_backslash_counterexample:
  "map (\<lambda>e. (e_name e, e_opsys e)) (za_entries (m_zipArchive unix_then_dos))
     = [(Some ''x'', Some ZIP_OPSYS_UNIX),
        (Some (''dir'' @ [BACKSLASH] @ ''file.txt''), Some ZIP_OPSYS_DOS)]
   \<and> fst (fileExists unix_then_dos ''dir/file.txt'') = False
   \<and> fst (fileExists unix_then_dos (''dir'' @ [BACKSLASH] @ ''file.txt'')) = True
   \<and> map (\<lambda>e. (e_name e, e_opsys e)) (za_entries (m_zipArchive dos_slash_then_backslash))
     = [(Some ''a/b'', Some ZIP_OPSYS_DOS),
        (Some (''dir'' @ [BACKSLASH] @ ''file.txt''), Some ZIP_OPSYS_DOS)]
   \<and> fst (fileExists dos_slash_then_backslash ''dir/file.txt'') = False"
proof -
  have u: "[0..<2] = [0, Suc 0]" by (simp add: numeral_2_eq_2)
  show ?thesis
    by (simp add: unix_then_dos_def dos_slash_then_backslash_def eval_defs Let_def u)
qed

text \<open>
  Witness for C8 as amended: on the DOS archive the first entry decides for the workaround,
  the literal lookup of \<open>dir/file.txt\<close> fails, the retry finds entry 0, and the file is
  opened and loaded as under its stored name; \<open>other.txt\<close> is found by neither lookup. On
  the archive with the Unix entry first there is no retry and the load fails.
\<close>

theorem name_lookup_workaround_witness:
  "first_decisive_entry_quirky (za_entries (m_zipArchive dos_backslash))
   \<and> fst (malformed_windows_path_separators_workaround dos_backslash)
   \<and> zip_name_locate (m_zipArchive dos_backslash) (c_str ''dir/file.txt'') = -1
   \<and> zip_name_locate (m_zipArchive dos_backslash) (''dir'' @ [BACKSLASH] @ ''file.txt'') = 0
   \<and> fst (wz_zip_name_locate dos_backslash (c_str ''dir/file.txt'')) = 0
   \<and> fst (fileExists dos_backslash ''dir/file.txt'')
   \<and> openBinaryStream dos_backslash ''dir/file.txt'' READ
       = openBinaryStream dos_backslash (''dir'' @ [BACKSLASH] @ ''file.txt'') READ
   \<and> loadFullFile dos_backslash ''dir/file.txt'' [] 0 False
       = (SUCCESS, [0x68, 0x69], dos_backslash\<lparr>m_foundMalformedWindowsPathSeparators := Some True\<rparr>)
   \<and> fst (wz_zip_name_locate dos_backslash (c_str ''other.txt'')) = -1
   \<and> fst (openBinaryStream dos_backslash ''other.txt'' READ) = None
   \<and> fst (loadFullFile dos_backslash ''other.txt'' [] 0 False) = FAILURE_OPEN
   \<and> fst (malformed_windows_path_separators_workaround unix_then_dos) = False
   \<and> fst (loadFullFile unix_then_dos ''dir/file.txt'' [] 0 False) = FAILURE_OPEN"
proof -
  let ?st = "\<lparr>st_valid = ZIP_STAT_SIZE OR ZIP_STAT_COMP_METHOD, st_size = 2, st_comp_method = ZIP_CM_STORE\<rparr>"
  note t = name_lookup_workaround [where fileData = "[]" and maxFileSize = 0 and appendNullCharacter = False]
  note t1 = t [where p = dos_backslash and filename = "''dir/file.txt''" and st = ?st and d = "[0x68, 0x69]"]
  note t2 = t [where p = dos_backslash and filename = "''other.txt''"]
  note t3 = t [where p = unix_then_dos and filename = "''dir/file.txt''"]
  have r: "str_replace SLASH BACKSLASH (c_str ''dir/file.txt'') = ''dir'' @ [BACKSLASH] @ ''file.txt''"
    by (simp add: str_replace_def c_str_def)
  have m: "m_foundMalformedWindowsPathSeparators dos_backslash = None"
    "m_foundMalformedWindowsPathSeparators unix_then_dos = None"
    by (simp_all add: dos_backslash_def unix_then_dos_def newWzMapZipIO_def)
  have q: "first_decisive_entry_quirky (za_entries (m_zipArchive dos_backslash))"
    "\<not> first_decisive_entry_quirky (za_entries (m_zipArchive unix_then_dos))"
    by (simp_all add: first_decisive_entry_quirky_def passed_over_def dos_with_backslash_def
        dos_backslash_def unix_then_dos_def eval_defs)
  have w: "fst (malformed_windows_path_separators_workaround dos_backslash)"
    using t1 [THEN conjunct1] m q by simp
  have nw: "\<not> fst (malformed_windows_path_separators_workaround unix_then_dos)"
    using t3 [THEN conjunct1] m q by simp
  have z: "zip_name_locate (m_zipArchive dos_backslash) (c_str ''dir/file.txt'') = -1"
    "zip_name_locate (m_zipArchive dos_backslash) (''dir'' @ [BACKSLASH] @ ''file.txt'') = 0"
    "zip_name_locate (m_zipArchive dos_backslash) (c_str ''other.txt'') = -1"
    "zip_name_locate (m_zipArchive dos_backslash) (str_replace SLASH BACKSLASH (c_str ''other.txt'')) = -1"
    "zip_name_locate (m_zipArchive unix_then_dos) (c_str ''dir/file.txt'') = -1"
    by (simp_all add: dos_backslash_def unix_then_dos_def eval_defs)
  have i1: "fst (wz_zip_name_locate dos_backslash (c_str ''dir/file.txt'')) = 0"
    using t1 [THEN conjunct2, THEN conjunct2, THEN conjunct1] w z r by (simp del: append.simps)
  have i2: "fst (wz_zip_name_locate dos_backslash (c_str ''other.txt'')) = -1"
    using t2 [THEN conjunct2, THEN conjunct2, THEN conjunct1] w z by simp
  have i3: "fst (wz_zip_name_locate unix_then_dos (c_str ''dir/file.txt'')) = -1"
    using t3 [THEN conjunct2, THEN conjunct2, THEN conjunct1] nw z by simp
  have s1: "snd (wz_zip_name_locate dos_backslash (c_str ''dir/file.txt''))
              = dos_backslash\<lparr>m_foundMalformedWindowsPathSeparators := Some True\<rparr>"
    using t1 [THEN conjunct2, THEN conjunct1] w by simp
  have fe: "fst (fileExists dos_backslash ''dir/file.txt'')"
    using t1 [THEN conjunct2, THEN conjunct2, THEN conjunct2, THEN conjunct1] i1 by simp
  have e: "zip_stat_index (m_zipArchive dos_backslash) 0 = Some ?st"
    "st_valid ?st AND ZIP_STAT_SIZE \<noteq> 0" "st_size ?st = of_nat (length [0x68, 0x69 :: byte])"
    "length [0x68, 0x69 :: byte] < 2 ^ 32"
    "wzMapZipIOSanityCheckStat ?st
       (if (0 :: 32 word) \<noteq> 0 then ucast (0 :: 32 word) else WzMapZipDefaultEmbeddedFileMaxFileSize) = PASSED"
    "zip_fopen_index (m_zipArchive dos_backslash) 0
       = Some \<lparr>zf_data = [0x68, 0x69], zf_corrupt = False, zf_error = False\<rparr>"
    by (simp_all add: dos_backslash_def eval_defs)
  have pre: "0 \<le> fst (wz_zip_name_locate dos_backslash (c_str ''dir/file.txt''))
        \<and> zip_stat_index (m_zipArchive dos_backslash)
             (nat (fst (wz_zip_name_locate dos_backslash (c_str ''dir/file.txt'')))) = Some ?st
        \<and> st_valid ?st AND ZIP_STAT_SIZE \<noteq> 0 \<and> st_size ?st = of_nat (length [0x68, 0x69 :: byte])
        \<and> length [0x68, 0x69 :: byte] < 2 ^ 32
        \<and> wzMapZipIOSanityCheckStat ?st
             (if (0 :: 32 word) \<noteq> 0 then ucast (0 :: 32 word) else WzMapZipDefaultEmbeddedFileMaxFileSize) = PASSED
        \<and> zip_fopen_index (m_zipArchive dos_backslash)
             (nat (fst (wz_zip_name_locate dos_backslash (c_str ''dir/file.txt''))))
             = Some \<lparr>zf_data = [0x68, 0x69], zf_corrupt = False, zf_error = False\<rparr>"
    unfolding i1 using e by (intro conjI) simp_all
  have ld: "loadFullFile dos_backslash ''dir/file.txt'' [] 0 False
       = (SUCCESS, [0x68, 0x69], dos_backslash\<lparr>m_foundMalformedWindowsPathSeparators := Some True\<rparr>)"
    using t1 [THEN conjunct2, THEN conjunct2, THEN conjunct2, THEN conjunct2, THEN conjunct2, THEN conjunct2,
              THEN conjunct1, THEN mp, OF pre] s1 by simp
  have lit: "zip_name_locate (m_zipArchive dos_backslash) (c_str ''dir/file.txt'') < 0
        \<and> fst (malformed_windows_path_separators_workaround dos_backslash)"
    using z w by simp
  have ob: "openBinaryStream dos_backslash ''dir/file.txt'' READ
       = openBinaryStream dos_backslash (''dir'' @ [BACKSLASH] @ ''file.txt'') READ"
    using t1 [THEN conjunct2, THEN conjunct2, THEN conjunct2, THEN conjunct2, THEN conjunct2, THEN conjunct2,
              THEN conjunct2, THEN conjunct2, THEN conjunct1, THEN mp, OF lit] r
    by (simp del: append.simps)
  have neg2: "fst (wz_zip_name_locate dos_backslash (c_str ''other.txt'')) < 0" using i2 by simp
  have neg3: "fst (wz_zip_name_locate unix_then_dos (c_str ''dir/file.txt'')) < 0" using i3 by simp
  note f2 = t2 [THEN conjunct2, THEN conjunct2, THEN conjunct2, THEN conjunct2, THEN conjunct1, THEN mp, OF neg2]
  note f3 = t3 [THEN conjunct2, THEN conjunct2, THEN conjunct2, THEN conjunct2, THEN conjunct1, THEN mp, OF neg3]
  have o2: "fst (openBinaryStream dos_backslash ''other.txt'' READ) = None"
    "fst (loadFullFile dos_backslash ''other.txt'' [] 0 False) = FAILURE_OPEN"
    using f2 by simp_all
  have o3: "fst (loadFullFile unix_then_dos ''dir/file.txt'' [] 0 False) = FAILURE_OPEN"
    using f3 by simp
  show ?thesis
    using q(1) w z(1,2) i1 fe ob ld i2 o2 nw o3 by (simp del: append.simps)
qed

section \<open>Enumeration without the unsafe entries\<close>

lemma loop_result_simps [simp]:
  "loop_result (Inl e) = Inl e" "loop_result (Inr (s, p)) = Inr s"
  by (simp_all add: loop_result_def)

lemma finished_simps [simp]:
  "finished (Inl e) = Inl e" "finished (Inr s) = Inr (True, s)"
  by (simp_all add: finished_def)

lemma outcome_simps [simp]:
  "outcome (Inl e) = Inl e" "outcome (Inr (ok, s, p)) = Inr (ok, s)"
  by (simp_all add: outcome_def)

lemma workaround_memo:
  "m_foundMalformedWindowsPathSeparators (snd (malformed_windows_path_separators_workaround p))
     = Some (fst (malformed_windows_path_separators_workaround p))"
  by (simp add: malformed_windows_path_separators_workaround_def
      determineIfMalformedWindowsPathSeparatorWorkaround_def zip_get_num_entries_def Let_def
      split: option.splits)

lemma workaround_of_memo:
  "m_foundMalformedWindowsPathSeparators p = Some v \<Longrightarrow>
     malformed_windows_path_separators_workaround p = (v, p)"
  by (simp add: malformed_windows_path_separators_workaround_def)

lemma workaround_stable:
  "fst (malformed_windows_path_separators_workaround (snd (malformed_windows_path_separators_workaround p)))
     = fst (malformed_windows_path_separators_workaround p)"
  using workaround_of_memo [OF workaround_memo [of p]] by simp

lemma separatorWorkaround_eq:
  assumes "idx < length (za_entries (m_zipArchive p))"
  shows "separatorWorkaround p idx name =
           (entryNameStr (fst (malformed_windows_path_separators_workaround p))
              (za_entries (m_zipArchive p) ! idx) name,
            snd (malformed_windows_path_separators_workaround p))"
  using assms
  by (simp add: separatorWorkaround_def entryNameStr_def split_beta workaround_archive
      zip_file_get_external_attributes_def split: option.splits)

lemma enumerateFilesEntry_eq:
  assumes "idx < length (za_entries (m_zipArchive p))"
  shows "fst (enumerateFilesEntry base emptyBasePath recurse p idx)
           = filesStep base emptyBasePath recurse
               (fst (malformed_windows_path_separators_workaround p))
               (za_entries (m_zipArchive p) ! idx)"
    and "snd (enumerateFilesEntry base emptyBasePath recurse p idx) = p
         \<or> snd (enumerateFilesEntry base emptyBasePath recurse p idx)
              = snd (malformed_windows_path_separators_workaround p)"
  using assms
  by (auto simp: enumerateFilesEntry_def filesStep_def zip_get_name_def separatorWorkaround_eq Let_def
      split: option.splits sum.splits)

lemma enumerateFilesLoop_eq:
  assumes "\<forall>i \<in> set idxs. i < length (za_entries (m_zipArchive p))"
  shows "loop_result (enumerateFilesLoop base emptyBasePath recurse enumFunc idxs p s)
           = filesLoop base emptyBasePath recurse
               (fst (malformed_windows_path_separators_workaround p)) enumFunc
               (map (\<lambda>i. za_entries (m_zipArchive p) ! i) idxs) s"
  using assms
proof (induction idxs arbitrary: p s)
  case Nil
  then show ?case by simp
next
  case (Cons idx rest)
  have idx: "idx < length (za_entries (m_zipArchive p))" using Cons.prems by simp
  note st = enumerateFilesEntry_eq [OF idx, of base emptyBasePath recurse]
  obtain r q where sq: "enumerateFilesEntry base emptyBasePath recurse p idx = (r, q)"
    by (cases "enumerateFilesEntry base emptyBasePath recurse p idx")
  have r: "filesStep base emptyBasePath recurse
               (fst (malformed_windows_path_separators_workaround p))
               (za_entries (m_zipArchive p) ! idx) = r"
    using st(1) sq by simp
  have q: "q = p \<or> q = snd (malformed_windows_path_separators_workaround p)"
    using st(2) sq by simp
  have za: "m_zipArchive q = m_zipArchive p"
    using q by (auto simp: workaround_archive)
  have wk: "fst (malformed_windows_path_separators_workaround q)
              = fst (malformed_windows_path_separators_workaround p)"
    using q by (auto simp: workaround_stable)
  have rest: "\<forall>i \<in> set rest. i < length (za_entries (m_zipArchive q))"
    using Cons.prems za by simp
  have ih: "loop_result (enumerateFilesLoop base emptyBasePath recurse enumFunc rest q s')
           = filesLoop base emptyBasePath recurse
               (fst (malformed_windows_path_separators_workaround p)) enumFunc
               (map (\<lambda>i. za_entries (m_zipArchive p) ! i) rest) s'" for s'
    using Cons.IH [OF rest, of s'] unfolding za wk .
  show ?case
  proof (cases r)
    case Continue
    then show ?thesis using sq r ih by simp
  next
    case (Yield nm)
    obtain c s1 where f: "enumFunc s nm = (c, s1)" by (cases "enumFunc s nm")
    show ?thesis using sq r ih Yield f by (cases c) simp_all
  next
    case (Throw er)
    then show ?thesis using sq r by simp
  qed
qed

lemma unsafeEntry_filesStep:
  "unsafeEntry wk e \<Longrightarrow> filesStep base emptyBasePath recurse wk e = Continue"
  by (auto simp: unsafeEntry_def filesStep_def Let_def split: option.splits)

lemma filesLoop_filter:
  "filesLoop base emptyBasePath recurse wk enumFunc (filter (\<lambda>e. \<not> unsafeEntry wk e) es) s
     = filesLoop base emptyBasePath recurse wk enumFunc es s"
proof (induction es arbitrary: s)
  case Nil
  then show ?case by simp
next
  case (Cons e es)
  show ?case
  proof (cases "unsafeEntry wk e")
    case True
    then show ?thesis using Cons.IH by (simp add: unsafeEntry_filesStep)
  next
    case False
    then show ?thesis using Cons.IH
      by (auto split: file_step.splits prod.splits bool.splits)
  qed
qed

lemma enumerateFilesInternal_outcome:
  "outcome (enumerateFilesInternal p basePath recurse enumFunc s) =
     (case enumFunc of
        None \<Rightarrow> Inr (False, s)
      | Some f \<Rightarrow>
         finished
           (filesLoop (fst (basePathToSearch basePath)) (snd (basePathToSearch basePath)) recurse
              (fst (malformed_windows_path_separators_workaround p)) f
              (za_entries (m_zipArchive p)) s))"
proof (cases enumFunc)
  case None
  then show ?thesis by (simp add: enumerateFilesInternal_def outcome_def)
next
  case (Some f)
  have "\<forall>i \<in> set [0..<length (za_entries (m_zipArchive p))]. i < length (za_entries (m_zipArchive p))"
    by simp
  from enumerateFilesLoop_eq [OF this, of "fst (basePathToSearch basePath)"
      "snd (basePathToSearch basePath)" recurse f s]
  have eq: "filesLoop (fst (basePathToSearch basePath)) (snd (basePathToSearch basePath)) recurse
              (fst (malformed_windows_path_separators_workaround p)) f
              (za_entries (m_zipArchive p)) s
         = loop_result (enumerateFilesLoop (fst (basePathToSearch basePath))
           (snd (basePathToSearch basePath)) recurse f [0..<length (za_entries (m_zipArchive p))] p s)"
    by (simp add: map_nth)
  show ?thesis
    using Some eq
    by (cases "enumerateFilesLoop (fst (basePathToSearch basePath))
           (snd (basePathToSearch basePath)) recurse f [0..<length (za_entries (m_zipArchive p))] p s")
       (auto simp: enumerateFilesInternal_def outcome_def zip_get_num_entries_def split_beta)
qed

lemma withoutUnsafeEntries_fields:
  "fst (malformed_windows_path_separators_workaround (withoutUnsafeEntries p))
     = fst (malformed_windows_path_separators_workaround p)"
  "za_entries (m_zipArchive (withoutUnsafeEntries p))
     = filter (\<lambda>e. \<not> unsafeEntry (fst (malformed_windows_path_separators_workaround p)) e)
         (za_entries (m_zipArchive p))"
  "m_cachedDirectoriesList (withoutUnsafeEntries p) = m_cachedDirectoriesList p"
  by (simp_all add: withoutUnsafeEntries_def workaround_of_memo)

lemma enumerateFilesInternal_filter:
  "outcome (enumerateFilesInternal (withoutUnsafeEntries p) basePath recurse enumFunc s)
     = outcome (enumerateFilesInternal p basePath recurse enumFunc s)"
  by (cases enumFunc)
     (simp_all add: enumerateFilesInternal_outcome withoutUnsafeEntries_fields filesLoop_filter)

lemma buildDirectoriesLoop_eq:
  assumes "\<forall>i \<in> set idxs. i < length (za_entries (m_zipArchive p))"
  shows "fst (buildDirectoriesLoop idxs p acc)
           = dirsLoop (fst (malformed_windows_path_separators_workaround p))
               (map (\<lambda>i. za_entries (m_zipArchive p) ! i) idxs) acc"
  using assms
proof (induction idxs arbitrary: p acc)
  case Nil
  then show ?case by simp
next
  case (Cons idx rest)
  have idx: "idx < length (za_entries (m_zipArchive p))" using Cons.prems by simp
  let ?q = "snd (malformed_windows_path_separators_workaround p)"
  let ?wk = "fst (malformed_windows_path_separators_workaround p)"
  let ?e = "za_entries (m_zipArchive p) ! idx"
  have ih: "fst (buildDirectoriesLoop rest q acc')
           = dirsLoop ?wk (map (\<lambda>i. za_entries (m_zipArchive p) ! i) rest) acc'"
    if "q = p \<or> q = ?q" for q acc'
  proof -
    have za: "m_zipArchive q = m_zipArchive p" using that by (auto simp: workaround_archive)
    have wk: "fst (malformed_windows_path_separators_workaround q) = ?wk"
      using that by (auto simp: workaround_stable)
    have "\<forall>i \<in> set rest. i < length (za_entries (m_zipArchive q))"
      using Cons.prems za by simp
    from Cons.IH [OF this, of acc'] show ?thesis unfolding za wk .
  qed
  show ?case
  proof (cases "e_name ?e")
    case None
    then show ?thesis using idx ih [of p acc] by (simp add: zip_get_name_def dirsStep_def)
  next
    case (Some name)
    show ?thesis
    proof (cases "c_str name = []")
      case True
      then show ?thesis using Some idx ih [of p acc] by (simp add: zip_get_name_def dirsStep_def)
    next
      case False
      then show ?thesis
        using Some idx ih [of ?q acc] ih [of ?q "deriveDirectories (entryNameStr ?wk ?e (c_str name)) acc"]
        by (simp add: zip_get_name_def dirsStep_def separatorWorkaround_eq)
    qed
  qed
qed

lemma unsafeEntry_dirsStep: "unsafeEntry wk e \<Longrightarrow> dirsStep wk e acc = acc"
  by (auto simp: unsafeEntry_def dirsStep_def split: option.splits)

lemma dirsLoop_filter:
  "dirsLoop wk (filter (\<lambda>e. \<not> unsafeEntry wk e) es) acc = dirsLoop wk es acc"
  by (induction es arbitrary: acc) (simp_all add: unsafeEntry_dirsStep)

text \<open>The directory list that the folder enumeration works on.\<close>

lemma ensureCachedDirectoriesList_eq:
  "\<exists>p1. ensureCachedDirectoriesList p = Some p1
        \<and> m_cachedDirectoriesList p1 =
            (if m_cachedDirectoriesList p = []
             then sort (snd (dirsLoop (fst (malformed_windows_path_separators_workaround p))
                               (za_entries (m_zipArchive p)) ({}, [])))
             else m_cachedDirectoriesList p)"
proof (cases "m_cachedDirectoriesList p = []")
  case True
  have "\<forall>i \<in> set [0..<length (za_entries (m_zipArchive p))]. i < length (za_entries (m_zipArchive p))"
    by simp
  from buildDirectoriesLoop_eq [OF this, of "({}, [])"]
  have "fst (buildDirectoriesLoop [0..<length (za_entries (m_zipArchive p))] p ({}, []))
          = dirsLoop (fst (malformed_windows_path_separators_workaround p))
              (za_entries (m_zipArchive p)) ({}, [])"
    by (simp add: map_nth)
  then show ?thesis
    using True
    by (simp add: ensureCachedDirectoriesList_def zip_get_num_entries_def split_beta)
next
  case False
  then show ?thesis by (simp add: ensureCachedDirectoriesList_def)
qed

lemma enumerateFoldersInternal_outcome:
  "outcome (enumerateFoldersInternal p basePath recurse enumFunc s) =
     (case enumFunc of
        None \<Rightarrow> Inr (False, s)
      | Some f \<Rightarrow>
         finished
           (listFoldersLoop (fst (basePathToSearch basePath)) (snd (basePathToSearch basePath)) recurse f
              (if m_cachedDirectoriesList p = []
               then sort (snd (dirsLoop (fst (malformed_windows_path_separators_workaround p))
                               (za_entries (m_zipArchive p)) ({}, [])))
               else m_cachedDirectoriesList p) s))"
proof (cases enumFunc)
  case None
  then show ?thesis by (simp add: enumerateFoldersInternal_def)
next
  case (Some f)
  from ensureCachedDirectoriesList_eq [of p] obtain p1 where
    p1: "ensureCachedDirectoriesList p = Some p1"
    and c: "m_cachedDirectoriesList p1 =
            (if m_cachedDirectoriesList p = []
             then sort (snd (dirsLoop (fst (malformed_windows_path_separators_workaround p))
                               (za_entries (m_zipArchive p)) ({}, [])))
             else m_cachedDirectoriesList p)"
    by blast
  show ?thesis
    unfolding enumerateFoldersInternal_def Some p1 c [symmetric]
    by (cases "listFoldersLoop (fst (basePathToSearch basePath)) (snd (basePathToSearch basePath))
                 recurse f (m_cachedDirectoriesList p1) s")
       (simp_all add: split_beta)
qed

lemma enumerateFoldersInternal_filter:
  "outcome (enumerateFoldersInternal (withoutUnsafeEntries p) basePath recurse enumFunc s)
     = outcome (enumerateFoldersInternal p basePath recurse enumFunc s)"
  by (cases enumFunc)
     (simp_all add: enumerateFoldersInternal_outcome withoutUnsafeEntries_fields dirsLoop_filter)

lemma dotdot_length: "n = u @ ''..'' @ v \<Longrightarrow> 2 \<le> length n"
  by simp

lemma has_dotdot_iff: "has_dotdot n \<longleftrightarrow> (\<exists>u v. n = u @ ''..'' @ v)"
proof (induction n rule: has_dotdot.induct)
  case (1 a b rest)
  show ?case
  proof
    assume "has_dotdot (a # b # rest)"
    then consider "a = CHR ''.'' \<and> b = CHR ''.''" | "has_dotdot (b # rest)" by auto
    then show "\<exists>u v. a # b # rest = u @ ''..'' @ v"
    proof cases
      case 1
      then have "a # b # rest = [] @ ''..'' @ rest" by simp
      then show ?thesis by blast
    next
      case 2
      with 1 obtain u v where "b # rest = u @ ''..'' @ v" by blast
      then have "a # b # rest = (a # u) @ ''..'' @ v" by simp
      then show ?thesis by blast
    qed
  next
    assume "\<exists>u v. a # b # rest = u @ ''..'' @ v"
    then obtain u v where uv: "a # b # rest = u @ ''..'' @ v" by blast
    show "has_dotdot (a # b # rest)"
    proof (cases u)
      case Nil
      with uv show ?thesis by simp
    next
      case (Cons c u')
      with uv have "b # rest = u' @ ''..'' @ v" by simp
      with 1 have "has_dotdot (b # rest)" by blast
      then show ?thesis by simp
    qed
  qed
qed (use dotdot_length in force)+

lemma isUnsafeZipEntryName_iff:
  "isUnsafeZipEntryName n \<longleftrightarrow>
     n = []
     \<or> (\<exists>u v. n = u @ ''..'' @ v)
     \<or> (\<exists>rest. n = SLASH # rest \<or> n = BACKSLASH # rest)
     \<or> (\<exists>c rest. n = c # CHR '':'' # rest
           \<and> ((CHR ''A'' \<le> c \<and> c \<le> CHR ''Z'') \<or> (CHR ''a'' \<le> c \<and> c \<le> CHR ''z'')))"
proof -
  have d: "(\<exists>u v. n = u @ ''..'' @ v) = has_dotdot n" by (simp add: has_dotdot_iff)
  show ?thesis
    unfolding d
  proof (cases n)
    case Nil
    then show "isUnsafeZipEntryName n \<longleftrightarrow>
     n = [] \<or> has_dotdot n
     \<or> (\<exists>rest. n = SLASH # rest \<or> n = BACKSLASH # rest)
     \<or> (\<exists>c rest. n = c # CHR '':'' # rest
           \<and> ((CHR ''A'' \<le> c \<and> c \<le> CHR ''Z'') \<or> (CHR ''a'' \<le> c \<and> c \<le> CHR ''z'')))"
      by (simp add: isUnsafeZipEntryName_def)
  next
    case (Cons c rest)
    then show "isUnsafeZipEntryName n \<longleftrightarrow>
     n = [] \<or> has_dotdot n
     \<or> (\<exists>rest. n = SLASH # rest \<or> n = BACKSLASH # rest)
     \<or> (\<exists>c rest. n = c # CHR '':'' # rest
           \<and> ((CHR ''A'' \<le> c \<and> c \<le> CHR ''Z'') \<or> (CHR ''a'' \<le> c \<and> c \<le> CHR ''z'')))"
      by (cases rest) (auto simp: isUnsafeZipEntryName_def)
  qed
qed

text \<open>
  C3. For every provider state, base path and callback, each of the four enumerations gives
  the caller exactly what it gives on the archive from which every entry with an empty or
  unsafe normalized name has been removed: the same names handed to the callback in the same
  order, the same returned flag, and no exception that the smaller archive would not raise.
  Such entries therefore contribute no name and no error. An entry is left out in this way
  exactly when its normalized name is empty, contains \<open>..\<close>, begins with a slash or a
  backslash, or begins with an ASCII letter followed by a colon.
\<close>

theorem unsafe_entries_never_enumerated:
  "outcome (enumerateFiles (withoutUnsafeEntries p) basePath enumFunc s)
     = outcome (enumerateFiles p basePath enumFunc s)
   \<and> outcome (enumerateFilesRecursive (withoutUnsafeEntries p) basePath enumFunc s)
     = outcome (enumerateFilesRecursive p basePath enumFunc s)
   \<and> outcome (enumerateFolders (withoutUnsafeEntries p) basePath enumFunc s)
     = outcome (enumerateFolders p basePath enumFunc s)
   \<and> outcome (enumerateFoldersRecursive (withoutUnsafeEntries p) basePath enumFunc s)
     = outcome (enumerateFoldersRecursive p basePath enumFunc s)
   \<and> (unsafeEntry wk e \<longleftrightarrow>
        (\<exists>name n. e_name e = Some name \<and> n = entryNameStr wk e (c_str name)
           \<and> (n = []
              \<or> (\<exists>u v. n = u @ ''..'' @ v)
              \<or> (\<exists>rest. n = SLASH # rest \<or> n = BACKSLASH # rest)
              \<or> (\<exists>c rest. n = c # CHR '':'' # rest
                   \<and> ((CHR ''A'' \<le> c \<and> c \<le> CHR ''Z'') \<or> (CHR ''a'' \<le> c \<and> c \<le> CHR ''z''))))))"
proof -
  have "unsafeEntry wk e \<longleftrightarrow>
        (\<exists>name n. e_name e = Some name \<and> n = entryNameStr wk e (c_str name)
           \<and> (n = []
              \<or> (\<exists>u v. n = u @ ''..'' @ v)
              \<or> (\<exists>rest. n = SLASH # rest \<or> n = BACKSLASH # rest)
              \<or> (\<exists>c rest. n = c # CHR '':'' # rest
                   \<and> ((CHR ''A'' \<le> c \<and> c \<le> CHR ''Z'') \<or> (CHR ''a'' \<le> c \<and> c \<le> CHR ''z'')))))"
    unfolding isUnsafeZipEntryName_iff [symmetric]
    by (cases "e_name e") (simp_all add: unsafeEntry_def)
  then show ?thesis
    by (simp only: enumerateFiles_def enumerateFilesRecursive_def enumerateFolders_def
        enumerateFoldersRecursive_def enumerateFilesInternal_filter enumerateFoldersInternal_filter
        simp_thms)
qed

text \<open>The enumerations of the archive without its unsafe entries.\<close>

lemma hostile_filtered:
  "outcome (enumerateFiles (withoutUnsafeEntries hostile) ''ok'' (Some collect) []) = Inr (True, [''good.txt''])"
  "outcome (enumerateFilesRecursive (withoutUnsafeEntries hostile) [] (Some collect) []) = Inr (True, [''ok/good.txt''])"
  "outcome (enumerateFolders (withoutUnsafeEntries hostile) [] (Some collect) []) = Inr (True, [''ok/''])"
  "outcome (enumerateFoldersRecursive (withoutUnsafeEntries hostile) [] (Some collect) []) = Inr (True, [''ok/''])"
  "map e_name (za_entries (m_zipArchive (withoutUnsafeEntries hostile)))
     = [Some (''ok'' @ [BACKSLASH] @ ''good.txt'')]"
  by code_simp+

text \<open>
  Witness for C3: of the six entries only the one stored as \<open>ok\good.txt\<close> is kept, and
  the enumerations of the full archive yield that file, as \<open>ok/good.txt\<close>, and its
  directory only.
\<close>

theorem unsafe_entries_never_enumerated_witness:
  "map e_name (za_entries (m_zipArchive (withoutUnsafeEntries hostile)))
     = [Some (''ok'' @ [BACKSLASH] @ ''good.txt'')]
   \<and> outcome (enumerateFiles hostile ''ok'' (Some collect) []) = Inr (True, [''good.txt''])
   \<and> outcome (enumerateFilesRecursive hostile [] (Some collect) []) = Inr (True, [''ok/good.txt''])
   \<and> outcome (enumerateFolders hostile [] (Some collect) []) = Inr (True, [''ok/''])
   \<and> outcome (enumerateFoldersRecursive hostile [] (Some collect) []) = Inr (True, [''ok/''])"
proof -
  note t1 = unsafe_entries_never_enumerated [of hostile "''ok''" "Some collect" "[]"]
  note t2 = unsafe_entries_never_enumerated [of hostile "[]" "Some collect" "[]"]
  note a = t1 [THEN conjunct1, symmetric]
  note b = t2 [THEN conjunct2, THEN conjunct1, symmetric]
  note c = t2 [THEN conjunct2, THEN conjunct2, THEN conjunct1, symmetric]
  note d = t2 [THEN conjunct2, THEN conjunct2, THEN conjunct2, THEN conjunct1, symmetric]
  show ?thesis
    unfolding a b c d by (simp only: hostile_filtered simp_thms)
qed

section \<open>The archive with the single entry a/b/c.txt\<close>

lemma separatorWorkaround_no_backslash:
  "BACKSLASH \<notin> set name \<Longrightarrow>
     separatorWorkaround p idx name = (name, snd (malformed_windows_path_separators_workaround p))"
  by (simp add: separatorWorkaround_def split_beta split: option.splits)

lemma workaround_cache:
  "m_cachedDirectoriesList (snd (malformed_windows_path_separators_workaround p)) = m_cachedDirectoriesList p"
  by (simp add: malformed_windows_path_separators_workaround_def
      determineIfMalformedWindowsPathSeparatorWorkaround_def Let_def split: option.splits)

lemma abc_checks:
  "c_str ''a/b/c.txt'' = ''a/b/c.txt''"
  "BACKSLASH \<notin> set ''a/b/c.txt''"
  "basePathToSearch ''a/'' = (''a/'', False)"
  "strncmp_eq ''a/'' ''a/b/c.txt'' (length ''a/'')"
  "\<not> isUnsafeZipEntryName ''a/b/c.txt''"
  "last ''a/b/c.txt'' \<noteq> SLASH"
  "str_find ''a/b/c.txt'' SLASH (length ''a/'') \<noteq> None"
  "substr_from ''a/b/c.txt'' (length ''a/'') = Inr ''b/c.txt''"
  "c_str ''b/c.txt'' = ''b/c.txt''"
  by code_simp+

lemma abc_directories:
  "sort (snd (deriveDirectories ''a/b/c.txt'' ({}, []))) = [''a/'', ''a/b/'']"
  by code_simp

lemma abc_listing:
  "listFoldersLoop ''a/'' False False collect [''a/'', ''a/b/''] [] = Inr [''b/'']"
  "listFoldersLoop ''a/'' False True collect [''a/'', ''a/b/''] [] = Inr [''b/'']"
  by code_simp+

text \<open>
  C7. On an archive whose only entry is named \<open>a/b/c.txt\<close>, with the directory list not
  yet built (or built from this archive): \<open>enumerateFolders("a/")\<close> and
  \<open>enumerateFoldersRecursive("a/")\<close> hand exactly \<open>b/\<close> to the callback,
  \<open>enumerateFilesRecursive("a/")\<close> exactly \<open>b/c.txt\<close>, and \<open>enumerateFiles("a/")\<close>
  nothing; each returns true.
\<close>

theorem enumerate_abc:
  assumes "za_entries (m_zipArchive p) = [e]" and "e_name e = Some ''a/b/c.txt''"
    and "m_cachedDirectoriesList p = [] \<or> m_cachedDirectoriesList p = [''a/'', ''a/b/'']"
  shows "(\<exists>p'. enumerateFolders p ''a/'' (Some collect) [] = Inr (True, [''b/''], p'))
       \<and> (\<exists>p'. enumerateFoldersRecursive p ''a/'' (Some collect) [] = Inr (True, [''b/''], p'))
       \<and> (\<exists>p'. enumerateFilesRecursive p ''a/'' (Some collect) [] = Inr (True, [''b/c.txt''], p'))
       \<and> (\<exists>p'. enumerateFiles p ''a/'' (Some collect) [] = Inr (True, [], p'))"
proof -
  have n: "zip_get_name (m_zipArchive p) 0 = Some ''a/b/c.txt''"
    using assms(1,2) by (simp add: zip_get_name_def abc_checks)
  have num: "zip_get_num_entries (m_zipArchive p) = 1"
    using assms(1) by (simp add: zip_get_num_entries_def)
  have step: "enumerateFilesEntry ''a/'' False recurse p 0 =
          (if recurse then Yield ''b/c.txt'' else Continue,
           snd (malformed_windows_path_separators_workaround p))" for recurse
    using abc_checks
    by (simp add: enumerateFilesEntry_def n separatorWorkaround_no_backslash del: length_Cons list.size)
  have files: "enumerateFilesInternal p ''a/'' recurse (Some collect) [] =
          Inr (True, if recurse then [''b/c.txt''] else [],
               snd (malformed_windows_path_separators_workaround p))" for recurse
    by (simp add: enumerateFilesInternal_def num abc_checks step collect_def)
  have cache: "\<exists>p1. ensureCachedDirectoriesList p = Some p1 \<and> m_cachedDirectoriesList p1 = [''a/'', ''a/b/'']"
  proof (cases "m_cachedDirectoriesList p = []")
    case True
    have "buildDirectoriesLoop [0] p ({}, []) =
            (deriveDirectories ''a/b/c.txt'' ({}, []), snd (malformed_windows_path_separators_workaround p))"
      using abc_checks by (simp add: n separatorWorkaround_no_backslash)
    then show ?thesis
      using True by (simp add: ensureCachedDirectoriesList_def num split_beta abc_directories)
  next
    case False
    with assms(3) show ?thesis by (simp add: ensureCachedDirectoriesList_def)
  qed
  have folders: "\<exists>p'. enumerateFoldersInternal p ''a/'' recurse (Some collect) [] = Inr (True, [''b/''], p')"
    for recurse
    using cache abc_listing
    by (cases recurse) (auto simp: enumerateFoldersInternal_def abc_checks)
  show ?thesis
    using files [of True] files [of False] folders [of True] folders [of False]
    by (simp add: enumerateFolders_def enumerateFoldersRecursive_def enumerateFilesRecursive_def
        enumerateFiles_def)
qed

text \<open>Witness for C7: the read-only archive with the stored entry \<open>a/b/c.txt\<close>.\<close>

theorem enumerate_abc_witness:
  "za_entries (m_zipArchive abc) = [stored_entry ''a/b/c.txt'' ZIP_OPSYS_UNIX [1]]
   \<and> e_name (stored_entry ''a/b/c.txt'' ZIP_OPSYS_UNIX [1]) = Some ''a/b/c.txt''
   \<and> m_cachedDirectoriesList abc = []
   \<and> outcome (enumerateFolders abc ''a/'' (Some collect) []) = Inr (True, [''b/''])
   \<and> outcome (enumerateFoldersRecursive abc ''a/'' (Some collect) []) = Inr (True, [''b/''])
   \<and> outcome (enumerateFilesRecursive abc ''a/'' (Some collect) []) = Inr (True, [''b/c.txt''])
   \<and> outcome (enumerateFiles abc ''a/'' (Some collect) []) = Inr (True, [])"
proof -
  have e: "za_entries (m_zipArchive abc) = [stored_entry ''a/b/c.txt'' ZIP_OPSYS_UNIX [1]]"
    by (simp add: abc_def newWzMapZipIO_def archive_of_def)
  have n: "e_name (stored_entry ''a/b/c.txt'' ZIP_OPSYS_UNIX [1]) = Some ''a/b/c.txt''"
    by (simp add: stored_entry_def)
  have c: "m_cachedDirectoriesList abc = []"
    by (simp add: abc_def newWzMapZipIO_def)
  have c': "m_cachedDirectoriesList abc = [] \<or> m_cachedDirectoriesList abc = [''a/'', ''a/b/'']"
    using c by simp
  from enumerate_abc [OF e n c'] e n c show ?thesis
    by auto
qed

section \<open>The directory list after a write\<close>

text \<open>In general: a successful \<open>writeFullFile\<close> leaves the directory list empty, and
  the close of a stream leaves it as it is.\<close>

lemma writeFullFile_clears_directory_list:
  "fst (writeFullFile realloc_ok p filename ppFileData fileSize) \<Longrightarrow>
     m_cachedDirectoriesList (snd (writeFullFile realloc_ok p filename ppFileData fileSize)) = []"
  by (auto simp: writeFullFile_def split_beta split: option.splits if_splits)

lemma close_stream_of_keeps_directory_list:
  "m_cachedDirectoriesList (snd (snd (close_stream_of p s))) = m_cachedDirectoriesList p"
  by (simp add: close_stream_of_def split_beta)

text \<open>
  C5. \<open>writeFullFile\<close> clears the directory list, and the folder enumeration that follows
  shows the new directory \<open>b/\<close>. The close of a write stream adds the same entry to the
  archive but leaves the provider's directory list as it was, so the folder enumeration that
  follows still yields \<open>a/\<close> alone.
\<close>

theorem stream_close_keeps_stale_directory_list:
  "outcome (enumerateFolders a_only [] (Some collect) []) = Inr (True, [''a/''])
   \<and> m_cachedDirectoriesList a_listed = [''a/'']
   \<and> fst (close_stream_of a_listed b_stream_written)
   \<and> map e_name (za_entries (m_zipArchive after_stream_close)) = [Some ''a/x.txt'', Some ''b/y.txt'']
   \<and> m_cachedDirectoriesList after_stream_close = [''a/'']
   \<and> outcome (enumerateFolders after_stream_close [] (Some collect) []) = Inr (True, [''a/''])
   \<and> fst (writeFullFile realloc_always a_listed ''b/y.txt'' [0x42] 1)
   \<and> map e_name (za_entries (m_zipArchive after_writeFullFile)) = [Some ''a/x.txt'', Some ''b/y.txt'']
   \<and> m_cachedDirectoriesList after_writeFullFile = []
   \<and> outcome (enumerateFolders after_writeFullFile [] (Some collect) []) = Inr (True, [''a/'', ''b/''])"
  by code_simp

end
